theory Spec2Isabelle
  imports Main "HOL-Library.Word"
begin

section \<open>C strings and the library functions the program calls\<close>

text \<open>
  A C string is modelled by the list of its characters before the terminating NUL.
  A pointer into a string is the offset from its first character; reading through a
  pointer at offset \<open>length s\<close> yields the terminator.
\<close>

definition NUL :: char where
  "NUL = CHR 0x00"

definition deref :: "string \<Rightarrow> nat \<Rightarrow> char" where
  "deref s p = (if p < length s then s ! p else NUL)"

text \<open>\<open>isspace\<close> and \<open>isdigit\<close> of the C locale.\<close>

definition isspace :: "char \<Rightarrow> bool" where
  "isspace c = (c = CHR '' '' \<or> c = CHR 0x09 \<or> c = CHR 0x0A \<or> c = CHR 0x0B
                \<or> c = CHR 0x0C \<or> c = CHR 0x0D)"

definition isdigit :: "char \<Rightarrow> bool" where
  "isdigit c = (48 \<le> (of_char c :: nat) \<and> (of_char c :: nat) \<le> 57)"

definition digit_val :: "char \<Rightarrow> nat" where
  "digit_val c = of_char c - 48"

definition digits_val :: "string \<Rightarrow> nat" where
  "digits_val ds = foldl (\<lambda>a c. 10 * a + digit_val c) 0 ds"

text \<open>
  \<open>strtol(nptr, &endptr, 10)\<close> of the C library, with a 64-bit \<open>long\<close>: leading white
  space is skipped, one sign is optional, then the longest run of decimal digits is
  converted. The result is the value, clamped to the range of \<open>long\<close>, and the number of
  characters consumed (\<open>endptr - nptr\<close>); when there is no digit nothing is consumed and
  the value is 0.
\<close>

definition LONG_MAX :: int where
  "LONG_MAX = 2 ^ 63 - 1"

definition LONG_MIN :: int where
  "LONG_MIN = - (2 ^ 63)"

definition clamp_long :: "int \<Rightarrow> int" where
  "clamp_long v = (if v > LONG_MAX then LONG_MAX else if v < LONG_MIN then LONG_MIN else v)"

definition strtol :: "string \<Rightarrow> int \<times> nat" where
  "strtol nptr =
     (let ws = takeWhile isspace nptr;
          r = dropWhile isspace nptr;
          neg = (r \<noteq> [] \<and> hd r = CHR ''-'');
          sl = (if r \<noteq> [] \<and> (hd r = CHR ''-'' \<or> hd r = CHR ''+'') then 1 else 0);
          ds = takeWhile isdigit (drop sl r)
      in if ds = [] then (0, 0)
         else (clamp_long (if neg then - int (digits_val ds) else int (digits_val ds)),
               length ws + sl + length ds))"

text \<open>After optional white space and an optional sign, a decimal digit follows.\<close>

definition number_at :: "string \<Rightarrow> bool" where
  "number_at xs =
     (case dropWhile isspace xs of
        [] \<Rightarrow> False
      | c # t \<Rightarrow>
          if c = CHR ''-'' \<or> c = CHR ''+'' then (case t of [] \<Rightarrow> False | d # u \<Rightarrow> isdigit d)
          else isdigit c)"

section \<open>The task count decoder\<close>

text \<open>
  \<open>task_count_t\<close>: the string, the cursor (an offset into the string), the value and the
  remaining repeat count of the active entry. The two \<open>int\<close> fields are 32-bit words, read
  as signed; a \<open>long\<close> stored into them is truncated to its low 32 bits, and
  \<open>tc->count--\<close> wraps around.
\<close>

record task_count_t =
  task_count_str :: string
  cur_ptr :: nat
  value_tc :: "32 word"
  count :: "32 word"

text \<open>What the program writes to the standard error stream, one constructor per message.\<close>

datatype stderr_line =
    Unexpected_character nat string
  | Invalid_repeat_count nat string
  | Invalid_repeat_specification nat string
  | Invalid_integer_value nat string
  | Invalid_delimiter string

text \<open>
  The three ways \<open>task_count_next\<close> returns: through \<open>return tc->value\<close>, through the
  \<open>return -1\<close> at the end of the string, and through a \<open>return -1\<close> that follows a message
  on the standard error stream.
\<close>

datatype next_result =
    Value int
  | Exhausted
  | ParseError stderr_line

text \<open>The \<open>int\<close> that the caller of \<open>task_count_next\<close> receives, and the message written.\<close>

definition return_value :: "next_result \<Rightarrow> int" where
  "return_value r = (case r of Value v \<Rightarrow> v | Exhausted \<Rightarrow> - 1 | ParseError e \<Rightarrow> - 1)"

definition diagnostics :: "next_result \<Rightarrow> stderr_line list" where
  "diagnostics r = (case r of ParseError e \<Rightarrow> [e] | _ \<Rightarrow> [])"

definition task_count_init :: "string \<Rightarrow> task_count_t" where
  "task_count_init s =
     \<lparr>task_count_str = s, cur_ptr = 0, value_tc = - 1, count = 0\<rparr>"

text \<open>The last two statements of \<open>task_count_next\<close>: \<open>tc->count--; return tc->value;\<close>\<close>

definition count_down :: "task_count_t \<Rightarrow> next_result \<times> task_count_t" where
  "count_down tc = (Value (sint (value_tc tc)), tc\<lparr>count := count tc - 1\<rparr>)"

definition task_count_next :: "task_count_t \<Rightarrow> next_result \<times> task_count_t" where
  "task_count_next tc =
     (let s = task_count_str tc in
      if count tc = 0 then
        if deref s (cur_ptr tc) \<noteq> NUL then
          (case strtol (drop (cur_ptr tc) s) of (c, n) \<Rightarrow>
             let end_ptr = cur_ptr tc + n in
             if end_ptr > cur_ptr tc then
               let tc = tc\<lparr>value_tc := word_of_int c\<rparr> in
               if deref s end_ptr = CHR ''('' then
                 let end_ptr = end_ptr + 1 in
                 if deref s end_ptr = CHR ''x'' then
                   let end_ptr = end_ptr + 1 in
                   (case strtol (drop end_ptr s) of (c, m) \<Rightarrow>
                      let alt_end_ptr = end_ptr + m in
                      if c > 0 \<and> alt_end_ptr > end_ptr then
                        let tc = tc\<lparr>count := word_of_int c\<rparr>;
                            end_ptr = alt_end_ptr in
                        if deref s end_ptr = CHR '')'' \<and>
                           (deref s (end_ptr + 1) = CHR '','' \<or> deref s (end_ptr + 1) = NUL)
                        then
                          let end_ptr = end_ptr + 1;
                              end_ptr = (if deref s end_ptr \<noteq> NUL then end_ptr + 1 else end_ptr)
                          in count_down (tc\<lparr>cur_ptr := end_ptr\<rparr>)
                        else (ParseError (Unexpected_character end_ptr s), tc)
                      else (ParseError (Invalid_repeat_count end_ptr s), tc))
                 else (ParseError (Invalid_repeat_specification end_ptr s), tc)
               else if deref s end_ptr = CHR '','' then
                 count_down (tc\<lparr>count := 1, cur_ptr := end_ptr + 1\<rparr>)
               else if deref s end_ptr = NUL then
                 count_down (tc\<lparr>count := 1, cur_ptr := end_ptr\<rparr>)
               else (ParseError (Unexpected_character end_ptr s), tc)
             else (ParseError (Invalid_integer_value (cur_ptr tc) s), tc))
        else (Exhausted, tc)
      else count_down tc)"

text \<open>\<open>n\<close> successive calls of \<open>task_count_next\<close> on the same decoder, with their results.\<close>

fun calls :: "nat \<Rightarrow> task_count_t \<Rightarrow> next_result list" where
  "calls 0 tc = []"
| "calls (Suc n) tc = (case task_count_next tc of (r, tc') \<Rightarrow> r # calls n tc')"

text \<open>The decoder as \<open>k\<close> calls of \<open>task_count_next\<close> leave it.\<close>

fun tc_after :: "nat \<Rightarrow> task_count_t \<Rightarrow> task_count_t" where
  "tc_after 0 tc = tc"
| "tc_after (Suc k) tc = tc_after k (snd (task_count_next tc))"

section \<open>The line format\<close>

text \<open>
  The functions on the format walk one pointer forward and never compute an offset, so
  the pointer is modelled by the text that remains in front of it; \<open>first_char\<close> is the
  character it points to, the terminator when nothing remains.
\<close>

definition first_char :: "string \<Rightarrow> char" where
  "first_char s = (case s of [] \<Rightarrow> NUL | c # cs \<Rightarrow> c)"

text \<open>\<open>strstr\<close> of the C library: the text from the first occurrence of the needle on.\<close>

fun strstr :: "string \<Rightarrow> string \<Rightarrow> string option" where
  "strstr [] needle = (if needle = [] then Some [] else None)"
| "strstr (c # cs) needle =
     (if take (length needle) (c # cs) = needle then Some (c # cs) else strstr cs needle)"

lemma strstr_Some:
  "strstr s needle = Some t \<Longrightarrow> length t \<le> length s \<and> take (length needle) t = needle"
  by (induction s) (auto split: if_splits)

lemma strstr_delim_length:
  assumes "strstr s ''%['' = Some t"
  shows "length (drop 2 t) < length s"
proof -
  from strstr_Some [OF assms] have le: "length t \<le> length s"
    and tk: "take (length ''%['') t = ''%[''"
    by blast+
  have "length (take (length ''%['') t) = 2"
    unfolding tk by simp
  then have "2 \<le> length t"
    by simp
  with le show ?thesis by simp
qed

lemma scan_delims_shorter:
  assumes "strstr s ''%['' = Some t"
  shows "length (dropWhile P (drop 2 t)) < length s"
proof -
  have "length (dropWhile P (drop 2 t)) \<le> length (drop 2 t)"
    by (rule length_dropWhile_le)
  also have "\<dots> < length s"
    using assms by (rule strstr_delim_length)
  finally show ?thesis .
qed

text \<open>
  The classification at the head of \<open>print_machinefile\<close>. \<open>scan_delims\<close> is its loop
  \<open>while ( (s = strstr(s, "%[")) )\<close>, \<open>has_count\<close> the value of the variable of that name
  when the host loop starts.
\<close>

function scan_delims :: "string \<Rightarrow> bool" where
  "scan_delims s =
     (case strstr s ''%['' of
        None \<Rightarrow> False
      | Some t \<Rightarrow>
          (let s1 = dropWhile (\<lambda>c. c \<noteq> CHR '']'') (drop 2 t) in
           if first_char s1 = CHR '']'' then
             (let s2 = tl s1 in
              if first_char s2 = CHR ''c'' \<or> first_char s2 = CHR ''C'' then True
              else scan_delims s2)
           else scan_delims s1))"
  by pat_completeness auto
termination
proof (relation "measure length", goal_cases)
  case 1
  show ?case by simp
next
  case (2 s t s1 s2)
  have "length s2 \<le> length s1"
    using 2 by simp
  also have "\<dots> < length s"
    using 2 by (simp add: scan_delims_shorter)
  finally show ?case by simp
next
  case (3 s t s1)
  then show ?case by (simp add: scan_delims_shorter)
qed

definition has_count :: "string \<Rightarrow> bool" where
  "has_count format =
     (if strstr format ''%c'' \<noteq> None \<or> strstr format ''%C'' \<noteq> None then True
      else scan_delims format)"

text \<open>The conversion \<open>%d\<close> of \<open>fprintf\<close>.\<close>

fun dec_nat :: "nat \<Rightarrow> string" where
  "dec_nat n =
     (if n < 10 then [char_of (48 + n)]
      else dec_nat (n div 10) @ [char_of (48 + n mod 10)])"

declare dec_nat.simps [simp del]

definition printf_d :: "int \<Rightarrow> string" where
  "printf_d i = (if i < 0 then CHR ''-'' # dec_nat (nat (- i)) else dec_nat (nat i))"

text \<open>
  Rendering a format returns the text written to the standard output and, when the
  process exits on a delimiter that is not closed, the text that the message shows (what
  follows \<open>%[\<close>). \<open>put\<close> writes a text in front of what the rest of the scan writes.
\<close>

definition put :: "string \<Rightarrow> string \<times> string option \<Rightarrow> string \<times> string option" where
  "put text r = (text @ fst r, snd r)"

lemma after_delim_shorter:
  assumes "b # e # t = dropWhile P q"
  shows "length t < Suc (Suc (length q))"
proof -
  have "length (dropWhile P q) \<le> length q"
    by (rule length_dropWhile_le)
  then have "length (b # e # t) \<le> length q"
    by (simp only: assms)
  then show ?thesis by simp
qed

text \<open>The scan \<open>while ( *format_ptr )\<close> of the branch \<open>has_count || no_repeats\<close>.\<close>

function fmt_single :: "string \<Rightarrow> string \<Rightarrow> int \<Rightarrow> string \<times> string option" where
  "fmt_single [] node_name task_count = ([], None)"
| "fmt_single (c # p) node_name task_count =
     (if c = CHR ''%'' then
        (case p of
           [] \<Rightarrow> ([], None)
         | d # q \<Rightarrow>
             if d = CHR ''%'' then put ''%'' (fmt_single q node_name task_count)
             else if d = CHR ''h'' then put node_name (fmt_single q node_name task_count)
             else if d = CHR ''C'' then
               (if task_count \<le> 1 then fmt_single q node_name task_count
                else put (printf_d task_count) (fmt_single q node_name task_count))
             else if d = CHR ''c'' then
               put (printf_d task_count) (fmt_single q node_name task_count)
             else if d = CHR ''['' then
               (let delim = takeWhile (\<lambda>x. x \<noteq> CHR '']'') q;
                    r = dropWhile (\<lambda>x. x \<noteq> CHR '']'') q
                in case r of
                     [] \<Rightarrow> ([], Some q)
                   | b # r' \<Rightarrow>
                       (case r' of
                          [] \<Rightarrow> ([], None)
                        | e # t \<Rightarrow>
                            if e = CHR ''C'' then
                              (if task_count \<le> 1 then fmt_single t node_name task_count
                               else put (delim @ printf_d task_count)
                                      (fmt_single t node_name task_count))
                            else if e = CHR ''c'' then
                              put (delim @ printf_d task_count)
                                (fmt_single t node_name task_count)
                            else fmt_single t node_name task_count))
             else fmt_single q node_name task_count)
      else put [c] (fmt_single p node_name task_count))"
  by pat_completeness auto
termination
  by (relation "measure (\<lambda>(p, n, t). length p)")
     (auto dest: after_delim_shorter)

text \<open>The scan \<open>while ( *format_ptr )\<close> of the other branch, which knows \<open>%%\<close> and \<open>%h\<close> only.\<close>

fun fmt_repeat :: "string \<Rightarrow> string \<Rightarrow> string" where
  "fmt_repeat [] node_name = []"
| "fmt_repeat (c # p) node_name =
     (if c = CHR ''%'' then
        (case p of
           [] \<Rightarrow> []
         | d # q \<Rightarrow>
             if d = CHR ''%'' then CHR ''%'' # fmt_repeat q node_name
             else if d = CHR ''h'' then node_name @ fmt_repeat q node_name
             else fmt_repeat q node_name)
      else c # fmt_repeat p node_name)"

text \<open>
  Texts that the single-pass scan, started at their first character, reads to their end
  token by token: a character other than the percent sign; a percent sign with the
  character after it, other than \<open>[\<close>; the text \<open>%[\<close>, a delimiter up to its \<open>]\<close>, and the
  character after it.
\<close>

inductive tokens :: "string \<Rightarrow> bool" where
  tokens_Nil: "tokens []"
| tokens_char: "c \<noteq> CHR ''%'' \<Longrightarrow> tokens r \<Longrightarrow> tokens (c # r)"
| tokens_percent: "d \<noteq> CHR ''['' \<Longrightarrow> tokens r \<Longrightarrow> tokens (CHR ''%'' # d # r)"
| tokens_delim: "CHR '']'' \<notin> set dl \<Longrightarrow> tokens r \<Longrightarrow> tokens (''%['' @ dl @ CHR '']'' # e # r)"

code_pred tokens .

text \<open>The loop \<open>while ( task_count-- )\<close> of the repeat mode: each turn renders the format
  from its start and ends the line.\<close>

definition LF :: char where
  "LF = CHR 0x0A"

fun repeat_lines :: "nat \<Rightarrow> string \<Rightarrow> string \<Rightarrow> string" where
  "repeat_lines 0 format node_name = []"
| "repeat_lines (Suc n) format node_name =
     fmt_repeat format node_name @ [LF] @ repeat_lines n format node_name"

text \<open>
  The body of the host loop of \<open>print_machinefile\<close> once the task count is known to be
  positive: the text written to the standard output for this host, and the delimiter text
  of the message when the process exits with \<open>EINVAL\<close>.
\<close>

definition render_host ::
    "bool \<Rightarrow> bool \<Rightarrow> string \<Rightarrow> string \<Rightarrow> int \<Rightarrow> string \<times> string option" where
  "render_host hc no_repeats format node_name task_count =
     (if hc \<or> no_repeats then
        (case fmt_single format node_name task_count of
           (text, Some delim) \<Rightarrow> (text, Some delim)
         | (text, None) \<Rightarrow> (text @ [LF], None))
      else (repeat_lines (nat task_count) format node_name, None))"

section \<open>The machine file\<close>

text \<open>
  What a run of \<open>print_machinefile\<close> leaves behind: the text on the standard output, the
  messages on the standard error stream, and whether the function returned to \<open>main\<close> or
  the process ended in \<open>exit(EINVAL)\<close>. The host list of the Slurm library is the list of
  the names that \<open>slurm_hostlist_shift\<close> hands out, in order.
\<close>

datatype exit_status = Returned | Exit_EINVAL

record run =
  stdout :: string
  stderr :: "stderr_line list"
  status :: exit_status

definition prepend :: "string \<Rightarrow> run \<Rightarrow> run" where
  "prepend text r = r\<lparr>stdout := text @ stdout r\<rparr>"

text \<open>The loop \<open>while ( true )\<close>, with the classification \<open>hc\<close> computed before it. A call
  of \<open>task_count_next\<close> that returns a positive number has written no message.\<close>

fun machinefile_loop ::
    "bool \<Rightarrow> string list \<Rightarrow> task_count_t \<Rightarrow> string \<Rightarrow> bool \<Rightarrow> run" where
  "machinefile_loop hc [] tc format no_repeats =
     \<lparr>stdout = [], stderr = [], status = Returned\<rparr>"
| "machinefile_loop hc (node_name # the_hostlist) tc format no_repeats =
     (case task_count_next tc of (r, tc') \<Rightarrow>
        let task_count = return_value r in
        if task_count \<le> 0 then \<lparr>stdout = [], stderr = diagnostics r, status = Returned\<rparr>
        else
          (case render_host hc no_repeats format node_name task_count of
             (text, Some delim) \<Rightarrow>
               \<lparr>stdout = text, stderr = [Invalid_delimiter delim], status = Exit_EINVAL\<rparr>
           | (text, None) \<Rightarrow>
               prepend text (machinefile_loop hc the_hostlist tc' format no_repeats)))"

definition print_machinefile :: "string list \<Rightarrow> task_count_t \<Rightarrow> string \<Rightarrow> bool \<Rightarrow> run" where
  "print_machinefile the_hostlist tc format no_repeats =
     machinefile_loop (has_count format) the_hostlist tc format no_repeats"

section \<open>Decoding a string to exhaustion\<close>

text \<open>
  What one call of \<open>task_count_next\<close> without an active entry does with the text at the
  cursor, told on the text alone: the number of characters that a successful call
  consumes, trailing comma included, and \<open>None\<close> where the call reports a parse error.
\<close>

definition entry_end :: "string \<Rightarrow> nat option" where
  "entry_end r =
     (case strtol r of (c, n) \<Rightarrow>
        if n = 0 then None
        else
          let u = drop n r in
          if first_char u = CHR ''('' then
            if first_char (drop 1 u) = CHR ''x'' then
              (case strtol (drop 2 u) of (c2, m) \<Rightarrow>
                 if 0 < c2 \<and> 0 < m then
                   let v = drop (2 + m) u in
                   if first_char v = CHR '')'' \<and>
                      (first_char (drop 1 v) = CHR '','' \<or> first_char (drop 1 v) = NUL)
                   then Some (n + 2 + m + 1 + (if first_char (drop 1 v) \<noteq> NUL then 1 else 0))
                   else None
                 else None)
            else None
          else if first_char u = CHR '','' then Some (n + 1)
          else if first_char u = NUL then Some n
          else None)"

lemma deref_first_char: "deref s p = first_char (drop p s)"
proof (cases "p < length s")
  case True
  then have "drop p s = s ! p # drop (Suc p) s"
    by (simp add: Cons_nth_drop_Suc)
  with True show ?thesis
    by (simp add: deref_def first_char_def)
next
  case False
  then show ?thesis
    by (simp add: deref_def first_char_def)
qed

lemma next_entry_end:
  assumes "count tc = 0" and "deref (task_count_str tc) (cur_ptr tc) \<noteq> NUL"
  shows "case entry_end (drop (cur_ptr tc) (task_count_str tc)) of
           None \<Rightarrow> \<exists>e tc'. task_count_next tc = (ParseError e, tc')
         | Some k \<Rightarrow> \<exists>v tc'. task_count_next tc = (Value v, tc')
               \<and> task_count_str tc' = task_count_str tc \<and> cur_ptr tc' = cur_ptr tc + k"
  using assms
  by (auto simp: task_count_next_def entry_end_def Let_def count_down_def deref_first_char
      add.commute add.left_commute split: prod.splits)

lemma entry_end_positive: "entry_end r = Some k \<Longrightarrow> 0 < k"
  by (auto simp: entry_end_def Let_def split: prod.splits if_splits)

lemma deref_in_range: "deref s p \<noteq> NUL \<Longrightarrow> p < length s"
  by (auto simp: deref_def split: if_splits)

lemma next_Value_cases:
  assumes "task_count_next tc = (Value v, tc')"
  shows "(count tc \<noteq> 0 \<and> tc' = tc\<lparr>count := count tc - 1\<rparr>)
       \<or> (count tc = 0 \<and> cur_ptr tc < length (task_count_str tc)
          \<and> task_count_str tc' = task_count_str tc \<and> cur_ptr tc < cur_ptr tc')"
proof (cases "count tc = 0")
  case False
  with assms show ?thesis
    by (simp add: task_count_next_def count_down_def)
next
  case True
  with assms have nn: "deref (task_count_str tc) (cur_ptr tc) \<noteq> NUL"
    by (auto simp: task_count_next_def)
  from next_entry_end [OF True nn] assms
  obtain k where "entry_end (drop (cur_ptr tc) (task_count_str tc)) = Some k"
    and "task_count_str tc' = task_count_str tc" and "cur_ptr tc' = cur_ptr tc + k"
    by (cases "entry_end (drop (cur_ptr tc) (task_count_str tc))") auto
  with entry_end_positive [of _ k] deref_in_range [OF nn] True show ?thesis
    by simp
qed

definition decode_measure :: "task_count_t \<Rightarrow> nat" where
  "decode_measure tc =
     (length (task_count_str tc) - cur_ptr tc) * 2 ^ 32 + unat (count tc)"

lemma next_Value_measure:
  assumes "task_count_next tc = (Value v, tc')"
  shows "decode_measure tc' < decode_measure tc"
  using next_Value_cases [OF assms]
proof (elim disjE conjE)
  assume "count tc \<noteq> 0" and "tc' = tc\<lparr>count := count tc - 1\<rparr>"
  then show ?thesis
    by (simp add: decode_measure_def unat_minus_one unat_gt_0)
next
  assume a: "cur_ptr tc < length (task_count_str tc)" "task_count_str tc' = task_count_str tc"
    "cur_ptr tc < cur_ptr tc'"
  have "unat (count tc') < 2 ^ 32"
    using unsigned_less [of "count tc'", where ?'a = nat] by simp
  then have "decode_measure tc' < (length (task_count_str tc) - cur_ptr tc' + 1) * 2 ^ 32"
    by (simp add: decode_measure_def a(2))
  also from a have "length (task_count_str tc) - cur_ptr tc' + 1 \<le> length (task_count_str tc) - cur_ptr tc"
    by arith
  then have "(length (task_count_str tc) - cur_ptr tc' + 1) * 2 ^ 32
      \<le> (length (task_count_str tc) - cur_ptr tc) * (2 ^ 32 :: nat)"
    by (rule mult_le_mono1)
  also have "\<dots> \<le> decode_measure tc"
    by (simp add: decode_measure_def)
  finally show ?thesis .
qed

text \<open>
  Calling \<open>task_count_next\<close> until it reports exhaustion or a parse error: the decoded
  values, or the message of the parse error.
\<close>

function decode :: "task_count_t \<Rightarrow> stderr_line + int list" where
  "decode tc =
     (case task_count_next tc of
        (Exhausted, tc') \<Rightarrow> Inr []
      | (ParseError e, tc') \<Rightarrow> Inl e
      | (Value v, tc') \<Rightarrow>
          (case decode tc' of Inl e \<Rightarrow> Inl e | Inr vs \<Rightarrow> Inr (v # vs)))"
  by pat_completeness auto
termination
  by (relation "measure decode_measure") (auto intro: next_Value_measure [OF sym])

declare decode.simps [simp del]

definition decodes :: "task_count_t \<Rightarrow> bool" where
  "decodes tc = (\<exists>vs. decode tc = Inr vs)"

section \<open>The grammar of task count strings\<close>

text \<open>The entries of a string, separated at its commas.\<close>

fun split_commas :: "string \<Rightarrow> string list" where
  "split_commas [] = [[]]"
| "split_commas (c # cs) =
     (if c = CHR '','' then [] # split_commas cs
      else (case split_commas cs of [] \<Rightarrow> [[c]] | w # ws \<Rightarrow> (c # w) # ws))"

text \<open>
  The grammar in the words of the specification: \<open>entry (',' entry)*\<close> with
  \<open>entry = INT | INT '(x' INT ')'\<close>, where \<open>INT\<close> is a run of decimal digits.
\<close>

definition spec_INT :: "string \<Rightarrow> bool" where
  "spec_INT i = (i \<noteq> [] \<and> list_all isdigit i)"

definition spec_entry :: "string \<Rightarrow> bool" where
  "spec_entry e =
     (let i = takeWhile (\<lambda>c. c \<noteq> CHR ''('') e;
          t = dropWhile (\<lambda>c. c \<noteq> CHR ''('') e
      in spec_INT i \<and>
         (t = [] \<or>
          (take 2 t = ''(x'' \<and> 3 \<le> length t \<and> last t = CHR '')'' \<and>
           spec_INT (butlast (drop 2 t)))))"

definition spec_grammar :: "string \<Rightarrow> bool" where
  "spec_grammar s = list_all spec_entry (split_commas s)"

text \<open>
  The strings that the code decodes: an integer is what \<open>strtol\<close> reads to its end
  (optional white space, an optional sign, decimal digits), a repeat count is such an
  integer with a positive value, an entry is an integer, alone or followed by \<open>(x\<close>, a
  repeat count and \<open>)\<close>; every entry before the last comma is an entry, and the text after
  the last comma is an entry or empty.
\<close>

definition strtol_INT :: "string \<Rightarrow> bool" where
  "strtol_INT i =
     (let r = dropWhile isspace i;
          ds = (if r \<noteq> [] \<and> (hd r = CHR ''-'' \<or> hd r = CHR ''+'') then tl r else r)
      in ds \<noteq> [] \<and> list_all isdigit ds)"

definition strtol_REP :: "string \<Rightarrow> bool" where
  "strtol_REP p = (strtol_INT p \<and> 0 < fst (strtol p))"

definition accepted_entry :: "string \<Rightarrow> bool" where
  "accepted_entry e =
     (let i = takeWhile (\<lambda>c. c \<noteq> CHR ''('') e;
          t = dropWhile (\<lambda>c. c \<noteq> CHR ''('') e
      in strtol_INT i \<and>
         (t = [] \<or>
          (take 2 t = ''(x'' \<and> 3 \<le> length t \<and> last t = CHR '')'' \<and>
           strtol_REP (butlast (drop 2 t)))))"

definition accepted :: "string \<Rightarrow> bool" where
  "accepted s =
     (let es = split_commas s
      in list_all accepted_entry (butlast es) \<and> (last es = [] \<or> accepted_entry (last es)))"

text \<open>The characters that \<open>strtol\<close> can consume.\<close>

definition numchar :: "char \<Rightarrow> bool" where
  "numchar c = (isspace c \<or> c = CHR ''-'' \<or> c = CHR ''+'' \<or> isdigit c)"

section \<open>The decoder on the example of the specification\<close>

text \<open>
  C1. On the task count string \<open>4(x2),2,1(x3)\<close>, starting from a freshly initialised
  decoder, the first six calls of \<open>task_count_next\<close> return 4, 4, 2, 1, 1, 1 in this
  order, and the seventh call reports that the string is exhausted (the caller
  receives -1, and nothing is written to the standard error stream).
\<close>

theorem task_count_next_example:
  "calls 7 (task_count_init ''4(x2),2,1(x3)'') =
     [Value 4, Value 4, Value 2, Value 1, Value 1, Value 1, Exhausted]
   \<and> map return_value (calls 7 (task_count_init ''4(x2),2,1(x3)'')) =
     [4, 4, 2, 1, 1, 1, - 1]
   \<and> concat (map diagnostics (calls 7 (task_count_init ''4(x2),2,1(x3)''))) = []
   \<and> decode (task_count_init ''4(x2),2,1(x3)'') = Inr [4, 4, 2, 1, 1, 1]"
  by code_simp

section \<open>Single-pass rendering\<close>

lemma takeWhile_delim:
  "CHR '']'' \<notin> set d \<Longrightarrow> takeWhile (\<lambda>x. x \<noteq> CHR '']'') (d @ CHR '']'' # rest) = d"
  by (induction d) auto

lemma dropWhile_delim:
  "CHR '']'' \<notin> set d \<Longrightarrow>
   dropWhile (\<lambda>x. x \<noteq> CHR '']'') (d @ CHR '']'' # rest) = CHR '']'' # rest"
  by (induction d) auto

lemma fmt_single_delim:
  assumes "CHR '']'' \<notin> set d"
  shows "fmt_single (''%['' @ d @ CHR '']'' # e # rest) h n =
     (if e = CHR ''C'' then
        (if n \<le> 1 then fmt_single rest h n else put (d @ printf_d n) (fmt_single rest h n))
      else if e = CHR ''c'' then put (d @ printf_d n) (fmt_single rest h n)
      else fmt_single rest h n)"
  using assms by (simp add: takeWhile_delim dropWhile_delim)

text \<open>
  C5. In single-pass rendering the token \<open>%C\<close> expands to the decimal task count when the
  count is greater than 1 and to nothing when the count is at most 1; the token
  \<open>%[d]C\<close> expands to the delimiter text \<open>d\<close> followed by the decimal task count when the
  count is greater than 1 and to nothing, delimiter included, when the count is at most 1.
  The format \<open>%h%[:]C\<close> for the host \<open>n001\<close> gives the line \<open>n001:3\<close> at count 3 and the
  line \<open>n001\<close> at count 1.
\<close>

theorem optional_count_tokens:
  "fmt_single (''%C'' @ rest) h n =
     (if n \<le> 1 then fmt_single rest h n else put (printf_d n) (fmt_single rest h n))
   \<and> (CHR '']'' \<notin> set d \<longrightarrow>
        fmt_single (''%['' @ d @ '']C'' @ rest) h n =
          (if n \<le> 1 then fmt_single rest h n
           else put (d @ printf_d n) (fmt_single rest h n)))
   \<and> render_host (has_count ''%h%[:]C'') nr ''%h%[:]C'' ''n001'' 3 = (''n001:3'' @ [LF], None)
   \<and> render_host (has_count ''%h%[:]C'') nr ''%h%[:]C'' ''n001'' 1 = (''n001'' @ [LF], None)"
proof (intro conjI impI)
  show "fmt_single (''%C'' @ rest) h n =
     (if n \<le> 1 then fmt_single rest h n else put (printf_d n) (fmt_single rest h n))"
    by simp
next
  assume "CHR '']'' \<notin> set d"
  from fmt_single_delim [OF this, of "CHR ''C''" rest h n]
  show "fmt_single (''%['' @ d @ '']C'' @ rest) h n =
          (if n \<le> 1 then fmt_single rest h n
           else put (d @ printf_d n) (fmt_single rest h n))"
    by simp
next
  have hc: "has_count ''%h%[:]C''"
    by code_simp
  have "fmt_single ''%h%[:]C'' ''n001'' 3 = (''n001:3'', None)"
    by code_simp
  then show "render_host (has_count ''%h%[:]C'') nr ''%h%[:]C'' ''n001'' 3
      = (''n001:3'' @ [LF], None)"
    by (simp add: render_host_def hc)
  have "fmt_single ''%h%[:]C'' ''n001'' 1 = (''n001'', None)"
    by code_simp
  then show "render_host (has_count ''%h%[:]C'') nr ''%h%[:]C'' ''n001'' 1
      = (''n001'' @ [LF], None)"
    by (simp add: render_host_def hc)
qed

theorem optional_count_tokens_witness:
  "CHR '']'' \<notin> set ''::'' \<and>
   fmt_single ''%[::]Cx'' ''n001'' 12 = (''::12x'', None) \<and>
   fmt_single ''%[::]Cx'' ''n001'' 1 = (''x'', None)"
proof -
  have a: "CHR '']'' \<notin> set ''::''"
    by simp
  have b: "fmt_single ''x'' ''n001'' k = (''x'', None)" for k
    by (simp add: put_def)
  have c: "printf_d 12 = ''12''"
    by code_simp
  from optional_count_tokens [of "''x''" "''n001''" 12 "''::''"]
    optional_count_tokens [of "''x''" "''n001''" 1 "''::''"] a b c
  show ?thesis by (simp add: put_def)
qed

section \<open>Repeat mode\<close>

lemma repeat_lines_replicate:
  "repeat_lines k fmt h = concat (replicate k (fmt_repeat fmt h @ [LF]))"
  by (induction k) simp_all

text \<open>
  C6. When the format has no count token and \<open>no_repeats\<close> is false, the format is
  rendered exactly \<open>task_count\<close> times for the host; each rendition substitutes only
  \<open>%%\<close> and \<open>%h\<close> (any other character after a percent sign is dropped with it) and
  ends with a newline. When \<open>no_repeats\<close> is true the format is rendered once, by the
  single-pass scan. The format
  \<open>%h\<close> for the host \<open>n001\<close> at count 3 gives three lines \<open>n001\<close> in repeat mode and one
  line \<open>n001\<close> with \<open>no_repeats\<close>.
\<close>

theorem repeat_mode:
  "(\<not> hc \<and> \<not> no_repeats \<longrightarrow>
      render_host hc no_repeats fmt h n =
        (concat (replicate (nat n) (fmt_repeat fmt h @ [LF])), None))
   \<and> (no_repeats \<longrightarrow>
      render_host hc no_repeats fmt h n =
        (fst (fmt_single fmt h n) @ (if snd (fmt_single fmt h n) = None then [LF] else []),
         snd (fmt_single fmt h n)))
   \<and> fmt_repeat [] h = []
   \<and> fmt_repeat ''%'' h = []
   \<and> fmt_repeat (''%%'' @ rest) h = ''%'' @ fmt_repeat rest h
   \<and> fmt_repeat (''%h'' @ rest) h = h @ fmt_repeat rest h
   \<and> (c \<noteq> CHR ''%'' \<and> c \<noteq> CHR ''h'' \<longrightarrow>
        fmt_repeat (CHR ''%'' # c # rest) h = fmt_repeat rest h)
   \<and> (c \<noteq> CHR ''%'' \<longrightarrow> fmt_repeat (c # rest) h = c # fmt_repeat rest h)
   \<and> render_host (has_count ''%h'') False ''%h'' ''n001'' 3 =
        (''n001'' @ [LF] @ ''n001'' @ [LF] @ ''n001'' @ [LF], None)
   \<and> render_host (has_count ''%h'') True ''%h'' ''n001'' 3 = (''n001'' @ [LF], None)"
proof (intro conjI impI)
  assume "\<not> hc \<and> \<not> no_repeats"
  then show "render_host hc no_repeats fmt h n =
        (concat (replicate (nat n) (fmt_repeat fmt h @ [LF])), None)"
    by (simp add: render_host_def repeat_lines_replicate)
next
  assume "no_repeats"
  then show "render_host hc no_repeats fmt h n =
        (fst (fmt_single fmt h n) @ (if snd (fmt_single fmt h n) = None then [LF] else []),
         snd (fmt_single fmt h n))"
    by (cases "fmt_single fmt h n") (auto simp: render_host_def)
next
  show "render_host (has_count ''%h'') False ''%h'' ''n001'' 3 =
        (''n001'' @ [LF] @ ''n001'' @ [LF] @ ''n001'' @ [LF], None)"
    by code_simp
  show "render_host (has_count ''%h'') True ''%h'' ''n001'' 3 = (''n001'' @ [LF], None)"
    by code_simp
qed simp_all

theorem repeat_mode_witness:
  "\<not> has_count ''%%%h %x'' \<and> snd (fmt_single ''%%%h %x'' ''n1'' 2) = None
   \<and> render_host (has_count ''%%%h %x'') False ''%%%h %x'' ''n1'' 2 =
       (''%n1 '' @ [LF] @ ''%n1 '' @ [LF], None)
   \<and> render_host (has_count ''%%%h %x'') True ''%%%h %x'' ''n1'' 2 = (''%n1 '' @ [LF], None)"
proof -
  have a: "\<not> has_count ''%%%h %x''" by code_simp
  have b: "fmt_single ''%%%h %x'' ''n1'' 2 = (''%n1 '', None)" by code_simp
  have c: "fmt_repeat ''%%%h %x'' ''n1'' = ''%n1 ''"
    by simp
  have d: "concat (replicate (nat 2) xs) = xs @ xs" for xs :: string
    by (simp add: numeral_2_eq_2)
  from repeat_mode [of "has_count ''%%%h %x''" False "''%%%h %x''" "''n1''" 2]
    repeat_mode [of "has_count ''%%%h %x''" True "''%%%h %x''" "''n1''" 2] a b c d
  show ?thesis by simp
qed

section \<open>Truncation of the machine file\<close>

lemma loop_stops_stdout:
  assumes "return_value (fst (task_count_next (tc_after (length pre) tc))) \<le> 0"
  shows "stdout (machinefile_loop hc (pre @ rest) tc fmt nr) = stdout (machinefile_loop hc pre tc fmt nr)
       \<and> status (machinefile_loop hc (pre @ rest) tc fmt nr) = status (machinefile_loop hc pre tc fmt nr)"
  using assms
proof (induction pre arbitrary: tc)
  case Nil
  then show ?case
    by (cases rest) (auto simp: Let_def split: prod.splits)
next
  case (Cons x pre)
  obtain r tc' where nx: "task_count_next tc = (r, tc')"
    by (cases "task_count_next tc")
  with Cons.prems have "return_value (fst (task_count_next (tc_after (length pre) tc'))) \<le> 0"
    by simp
  from Cons.IH [OF this] show ?case
    by (simp add: nx prepend_def Let_def split: prod.splits option.splits)
qed

lemma loop_stops_silently:
  assumes "return_value (fst (task_count_next (tc_after (length pre) tc))) \<le> 0"
    and "diagnostics (fst (task_count_next (tc_after (length pre) tc))) = []"
  shows "machinefile_loop hc (pre @ rest) tc fmt nr = machinefile_loop hc pre tc fmt nr"
  using assms
proof (induction pre arbitrary: tc)
  case Nil
  then show ?case
    by (cases rest) (auto simp: Let_def split: prod.splits)
next
  case (Cons x pre)
  obtain r tc' where nx: "task_count_next tc = (r, tc')"
    by (cases "task_count_next tc")
  with Cons.prems have "return_value (fst (task_count_next (tc_after (length pre) tc'))) \<le> 0"
    and "diagnostics (fst (task_count_next (tc_after (length pre) tc'))) = []"
    by simp_all
  from Cons.IH [OF this] show ?case
    by (simp add: nx prepend_def Let_def split: prod.splits option.splits)
qed

text \<open>
  C4. The host loop stops when the host list is exhausted, and as soon as the decoder is
  exhausted or returns a number that is not positive: the hosts from that one on add
  nothing to the standard output, whatever their number. The function then returns
  normally; when the decoder was exhausted or decoded a non-positive value nothing is
  written to the standard error stream either. With three hosts and the task counts
  \<open>2,1\<close> exactly the first two hosts produce a line.
\<close>

theorem machinefile_stops:
  "print_machinefile [] tc fmt nr = \<lparr>stdout = [], stderr = [], status = Returned\<rparr>
   \<and> (return_value (fst (task_count_next (tc_after (length pre) tc))) \<le> 0 \<longrightarrow>
        stdout (print_machinefile (pre @ rest) tc fmt nr) = stdout (print_machinefile pre tc fmt nr)
      \<and> status (print_machinefile (pre @ rest) tc fmt nr) = status (print_machinefile pre tc fmt nr))
   \<and> (fst (task_count_next (tc_after (length pre) tc)) = Exhausted
        \<or> (\<exists>v. v \<le> 0 \<and> fst (task_count_next (tc_after (length pre) tc)) = Value v) \<longrightarrow>
        print_machinefile (pre @ rest) tc fmt nr = print_machinefile pre tc fmt nr)
   \<and> (return_value (fst (task_count_next tc)) \<le> 0 \<longrightarrow>
        print_machinefile (h # rest) tc fmt nr =
          \<lparr>stdout = [], stderr = diagnostics (fst (task_count_next tc)), status = Returned\<rparr>)
   \<and> print_machinefile [''n000'', ''n001'', ''n002''] (task_count_init ''2,1'') ''%h%[:]C'' nr =
        \<lparr>stdout = ''n000:2'' @ [LF] @ ''n001'' @ [LF], stderr = [], status = Returned\<rparr>"
proof (intro conjI impI)
  show "print_machinefile [] tc fmt nr = \<lparr>stdout = [], stderr = [], status = Returned\<rparr>"
    by (simp add: print_machinefile_def)
next
  assume "return_value (fst (task_count_next (tc_after (length pre) tc))) \<le> 0"
  from loop_stops_stdout [OF this]
  show "stdout (print_machinefile (pre @ rest) tc fmt nr) = stdout (print_machinefile pre tc fmt nr)"
    and "status (print_machinefile (pre @ rest) tc fmt nr) = status (print_machinefile pre tc fmt nr)"
    by (simp_all add: print_machinefile_def)
next
  assume "fst (task_count_next (tc_after (length pre) tc)) = Exhausted
        \<or> (\<exists>v. v \<le> 0 \<and> fst (task_count_next (tc_after (length pre) tc)) = Value v)"
  then have "return_value (fst (task_count_next (tc_after (length pre) tc))) \<le> 0"
    and "diagnostics (fst (task_count_next (tc_after (length pre) tc))) = []"
    by (auto simp: return_value_def diagnostics_def)
  from loop_stops_silently [OF this]
  show "print_machinefile (pre @ rest) tc fmt nr = print_machinefile pre tc fmt nr"
    by (simp add: print_machinefile_def)
next
  assume "return_value (fst (task_count_next tc)) \<le> 0"
  then show "print_machinefile (h # rest) tc fmt nr =
          \<lparr>stdout = [], stderr = diagnostics (fst (task_count_next tc)), status = Returned\<rparr>"
    by (cases "task_count_next tc") (simp add: print_machinefile_def Let_def)
next
  have "print_machinefile [''n000'', ''n001'', ''n002''] (task_count_init ''2,1'') ''%h%[:]C'' b =
        \<lparr>stdout = ''n000:2'' @ [LF] @ ''n001'' @ [LF], stderr = [], status = Returned\<rparr>"
    if "b = True \<or> b = False" for b
    using that by (elim disjE; hypsubst) code_simp+
  then show "print_machinefile [''n000'', ''n001'', ''n002''] (task_count_init ''2,1'') ''%h%[:]C'' nr =
        \<lparr>stdout = ''n000:2'' @ [LF] @ ''n001'' @ [LF], stderr = [], status = Returned\<rparr>"
    by simp
qed

theorem machinefile_stops_witness:
  "fst (task_count_next (tc_after (length [''a'', ''b'']) (task_count_init ''2,1''))) = Exhausted
   \<and> return_value (fst (task_count_next (tc_after (length [''a'']) (task_count_init ''1,0,5'')))) \<le> 0
   \<and> print_machinefile ([''a'', ''b''] @ [''c'', ''d'']) (task_count_init ''2,1'') ''%h'' False
       = print_machinefile [''a'', ''b''] (task_count_init ''2,1'') ''%h'' False
   \<and> stdout (print_machinefile ([''a''] @ [''b'', ''c'']) (task_count_init ''1,0,5'') ''%h'' False)
       = ''a'' @ [LF]
   \<and> print_machinefile (''a'' # [''b'']) (task_count_init ''x'') ''%h'' False
       = \<lparr>stdout = [], stderr = [Invalid_integer_value 0 ''x''], status = Returned\<rparr>"
proof -
  have a: "fst (task_count_next (tc_after (length [''a'', ''b'']) (task_count_init ''2,1''))) = Exhausted"
    by code_simp
  have b: "return_value (fst (task_count_next (tc_after (length [''a'']) (task_count_init ''1,0,5'')))) \<le> 0"
    by code_simp
  have c: "stdout (print_machinefile [''a''] (task_count_init ''1,0,5'') ''%h'' False) = ''a'' @ [LF]"
    by code_simp
  have d: "return_value (fst (task_count_next (task_count_init ''x''))) \<le> 0"
    by code_simp
  have e: "diagnostics (fst (task_count_next (task_count_init ''x''))) = [Invalid_integer_value 0 ''x'']"
    by code_simp
  from machinefile_stops [of "task_count_init ''2,1''" "''%h''" False "[''a'', ''b'']" "[''c'', ''d'']"]
    machinefile_stops [of "task_count_init ''1,0,5''" "''%h''" False "[''a'']" "[''b'', ''c'']"]
    machinefile_stops [of "task_count_init ''x''" "''%h''" False "[]" "[''b'']" "''a''"]
    a b c d e
  show ?thesis by simp
qed

section \<open>Delimited count tokens\<close>

lemma strstr_delim_first:
  "\<exists>t. strstr (pre @ ''%['' @ rest) ''%['' = Some (''%['' @ t) \<and>
       (t = rest \<or> (\<exists>w. t = w @ ''%['' @ rest \<and> length w < length pre))"
proof (induction pre)
  case Nil
  show ?case by simp
next
  case (Cons x pre)
  show ?case
  proof (cases "take 2 (x # pre @ ''%['' @ rest) = ''%[''")
    case True
    then obtain w where "pre = CHR ''['' # w"
      by (cases pre) auto
    with True show ?thesis by auto
  next
    case False
    with Cons show ?thesis by auto
  qed
qed

lemma scan_delims_step:
  assumes "strstr s ''%['' = Some (''%['' @ d @ CHR '']'' # rest)"
    and "CHR '']'' \<notin> set d"
  shows "scan_delims s =
    (if first_char rest = CHR ''c'' \<or> first_char rest = CHR ''C'' then True else scan_delims rest)"
  using assms by (subst scan_delims.simps) (simp add: dropWhile_delim first_char_def)

lemma scan_delims_finds:
  assumes "CHR '']'' \<notin> set d" and "e = CHR ''c'' \<or> e = CHR ''C''"
  shows "scan_delims (pre @ ''%['' @ d @ CHR '']'' # e # post)"
proof (induction "length pre" arbitrary: pre rule: less_induct)
  case less
  let ?rest = "d @ CHR '']'' # e # post"
  let ?s = "pre @ ''%['' @ ?rest"
  obtain t where t: "strstr ?s ''%['' = Some (''%['' @ t)"
    and cases: "t = ?rest \<or> (\<exists>w. t = w @ ''%['' @ ?rest \<and> length w < length pre)"
    using strstr_delim_first [of pre ?rest] by blast
  from cases show ?case
  proof
    assume "t = ?rest"
    with t assms scan_delims_step [of ?s d "e # post"] show ?thesis
      by (auto simp: first_char_def)
  next
    assume "\<exists>w. t = w @ ''%['' @ ?rest \<and> length w < length pre"
    then obtain w where w: "t = w @ ''%['' @ ?rest" and len: "length w < length pre"
      by blast
    show ?thesis
    proof (cases "CHR '']'' \<in> set w")
      case False
      with assms have "CHR '']'' \<notin> set (w @ ''%['' @ d)"
        by simp
      moreover from t w
      have "strstr ?s ''%['' = Some (''%['' @ (w @ ''%['' @ d) @ CHR '']'' # e # post)"
        by simp
      ultimately have "scan_delims ?s =
          (if first_char (e # post) = CHR ''c'' \<or> first_char (e # post) = CHR ''C'' then True
           else scan_delims (e # post))"
        by (rule scan_delims_step [rotated])
      with assms show ?thesis
        by (auto simp: first_char_def)
    next
      case True
      then obtain w1 w2 where w12: "w = w1 @ CHR '']'' # w2" and w1: "CHR '']'' \<notin> set w1"
        by (auto dest: split_list_first)
      from t w w12
      have "strstr ?s ''%['' = Some (''%['' @ w1 @ CHR '']'' # (w2 @ ''%['' @ ?rest))"
        by simp
      from scan_delims_step [OF this w1]
      have step: "scan_delims ?s =
          (if first_char (w2 @ ''%['' @ ?rest) = CHR ''c'' \<or>
              first_char (w2 @ ''%['' @ ?rest) = CHR ''C'' then True
           else scan_delims (w2 @ ''%['' @ ?rest))" .
      from w12 len have "length w2 < length pre"
        by simp
      from less [OF this] step show ?thesis
        by auto
    qed
  qed
qed

lemma has_count_delim:
  assumes "CHR '']'' \<notin> set d" and "e = CHR ''c'' \<or> e = CHR ''C''"
  shows "has_count (pre @ ''%['' @ d @ CHR '']'' # e # post)"
  using scan_delims_finds [OF assms] by (simp add: has_count_def)

text \<open>
  C10. Neither the classification nor single-pass rendering checks the delimiter text
  between \<open>%[\<close> and \<open>]\<close>: for every text \<open>d\<close> without \<open>]\<close>, empty or not, a format that
  contains \<open>%[d]c\<close> is classified as having a count token, and the token renders as \<open>d\<close>
  followed by the decimal task count. The token \<open>%[]c\<close> is accepted and renders as
  \<open>%c\<close> does.
\<close>

theorem delimiter_unchecked:
  "CHR '']'' \<notin> set d \<longrightarrow>
     has_count (pre @ ''%['' @ d @ '']c'' @ post)
   \<and> fmt_single (''%['' @ d @ '']c'' @ rest) h n = put (d @ printf_d n) (fmt_single rest h n)
   \<and> has_count (pre @ ''%[]c'' @ post)
   \<and> fmt_single (''%[]c'' @ rest) h n = fmt_single (''%c'' @ rest) h n"
proof (intro impI conjI)
  assume d: "CHR '']'' \<notin> set d"
  from has_count_delim [OF d, of "CHR ''c''" pre post]
  show "has_count (pre @ ''%['' @ d @ '']c'' @ post)"
    by simp
  from fmt_single_delim [OF d, of "CHR ''c''" rest h n]
  show "fmt_single (''%['' @ d @ '']c'' @ rest) h n = put (d @ printf_d n) (fmt_single rest h n)"
    by simp
  from has_count_delim [of "[]" "CHR ''c''" pre post]
  show "has_count (pre @ ''%[]c'' @ post)"
    by simp
  from fmt_single_delim [of "[]" "CHR ''c''" rest h n]
  show "fmt_single (''%[]c'' @ rest) h n = fmt_single (''%c'' @ rest) h n"
    by simp
qed

theorem delimiter_unchecked_witness:
  "CHR '']'' \<notin> set ''x%[ y'' \<and>
   has_count (''%h'' @ ''%['' @ ''x%[ y'' @ '']c'' @ ''z'') \<and>
   fmt_single (''%['' @ ''x%[ y'' @ '']c'' @ ''z'') ''n1'' 7 = (''x%[ y7z'', None)"
proof -
  have a: "CHR '']'' \<notin> set ''x%[ y''" by simp
  have b: "printf_d 7 = ''7''" by code_simp
  have c: "fmt_single ''z'' ''n1'' 7 = (''z'', None)" by (simp add: put_def)
  from delimiter_unchecked [of "''x%[ y''" "''%h''" "''z''" "''z''" "''n1''" 7] a b c
  show ?thesis by (simp add: put_def)
qed

section \<open>The outcomes of a call of the decoder\<close>

lemma strtol_consumes_iff: "0 < snd (strtol xs) \<longleftrightarrow> number_at xs"
proof (cases "dropWhile isspace xs")
  case Nil
  then show ?thesis by (simp add: strtol_def number_at_def del: dropWhile_eq_Nil_conv)
next
  case (Cons c t)
  then show ?thesis
    by (cases t) (auto simp: strtol_def number_at_def Let_def)
qed

lemma next_at_end:
  assumes "count tc = 0" and "deref (task_count_str tc) (cur_ptr tc) = NUL"
  shows "task_count_next tc = (Exhausted, tc)"
  using assms by (simp add: task_count_next_def)

lemma next_no_number:
  assumes "count tc = 0" and "deref (task_count_str tc) (cur_ptr tc) \<noteq> NUL"
    and "\<not> number_at (drop (cur_ptr tc) (task_count_str tc))"
  shows "task_count_next tc =
    (ParseError (Invalid_integer_value (cur_ptr tc) (task_count_str tc)), tc)"
proof -
  from assms(3) have "snd (strtol (drop (cur_ptr tc) (task_count_str tc))) = 0"
    using strtol_consumes_iff by auto
  with assms(1,2) show ?thesis
    by (cases "strtol (drop (cur_ptr tc) (task_count_str tc))") (simp add: task_count_next_def)
qed

lemma next_number:
  assumes "count tc = 0" and "deref (task_count_str tc) (cur_ptr tc) \<noteq> NUL"
    and "number_at (drop (cur_ptr tc) (task_count_str tc))"
  shows "fst (task_count_next tc) \<noteq> Exhausted"
    and "fst (task_count_next tc) \<noteq> ParseError (Invalid_integer_value k s')"
proof -
  obtain c n where st: "strtol (drop (cur_ptr tc) (task_count_str tc)) = (c, n)"
    by (cases "strtol (drop (cur_ptr tc) (task_count_str tc))")
  with assms(3) have n: "0 < n"
    using strtol_consumes_iff [of "drop (cur_ptr tc) (task_count_str tc)"] by simp
  show "fst (task_count_next tc) \<noteq> Exhausted"
    using assms(1,2) st n
    by (simp add: task_count_next_def Let_def count_down_def split: prod.splits)
  show "fst (task_count_next tc) \<noteq> ParseError (Invalid_integer_value k s')"
    using assms(1,2) st n
    by (simp add: task_count_next_def Let_def count_down_def split: prod.splits)
qed

lemma next_result_cases:
  "(fst (task_count_next tc) = Exhausted \<longleftrightarrow>
      count tc = 0 \<and> deref (task_count_str tc) (cur_ptr tc) = NUL)
   \<and> (fst (task_count_next tc) = Exhausted \<longrightarrow> snd (task_count_next tc) = tc)
   \<and> (fst (task_count_next tc) = ParseError e \<longrightarrow>
        cur_ptr (snd (task_count_next tc)) = cur_ptr tc \<and> count tc = 0)
   \<and> (fst (task_count_next tc) = Value v \<longrightarrow>
        v = sint (value_tc (snd (task_count_next tc))))"
  by (auto simp: task_count_next_def Let_def count_down_def split: prod.splits if_splits)

lemma next_ParseError_state:
  assumes "task_count_next tc = (ParseError e, tc')"
  shows "count tc = 0 \<and> deref (task_count_str tc) (cur_ptr tc) \<noteq> NUL \<and>
    ((e = Invalid_integer_value (cur_ptr tc) (task_count_str tc) \<and> tc' = tc)
     \<or> ((\<exists>k. e = Invalid_repeat_specification k (task_count_str tc)
              \<or> e = Invalid_repeat_count k (task_count_str tc)
              \<or> e = Unexpected_character k (task_count_str tc))
         \<and> tc' = tc\<lparr>value_tc := word_of_int (fst (strtol (drop (cur_ptr tc) (task_count_str tc))))\<rparr>)
     \<or> ((\<exists>k. e = Unexpected_character k (task_count_str tc))
         \<and> (\<exists>c. 0 < c \<and>
               tc' = tc\<lparr>value_tc := word_of_int (fst (strtol (drop (cur_ptr tc) (task_count_str tc)))),
                        count := word_of_int c\<rparr>)))"
  using assms
  by (auto simp: task_count_next_def Let_def count_down_def split: prod.splits if_splits)

lemma calls_exhausted:
  assumes "task_count_next tc = (Exhausted, tc)"
  shows "calls n tc = replicate n Exhausted"
  using assms by (induction n) simp_all

text \<open>
  C8, as the code has it. \<open>task_count_next\<close> hands one \<open>int\<close> to its caller: the decoded
  value, or -1 both when the string is exhausted and when a parse error is found, so the
  number returned by that call does not tell the two apart. They differ in what they
  leave behind. Exhaustion, which happens exactly when no entry is active and the cursor
  is at the end of the string, writes nothing and leaves the decoder as it was, so every
  later call returns -1 again. A parse error, which happens only when no entry is active
  and the cursor is not at the end of the string, writes its message and never moves the
  cursor, but every message except the invalid-integer one comes after the value has been
  stored, and the unexpected-character message after a repeat count comes after the count
  has been stored too, so later calls can return that value: on \<open>4(x2)x\<close> seven calls
  return -1, 4, 4, -1, 4, 4, -1.
\<close>

theorem next_return_value:
  "(fst (task_count_next tc) = Exhausted \<longleftrightarrow>
      count tc = 0 \<and> deref (task_count_str tc) (cur_ptr tc) = NUL)
   \<and> (fst (task_count_next tc) = Exhausted \<longrightarrow>
        return_value (fst (task_count_next tc)) = - 1
      \<and> diagnostics (fst (task_count_next tc)) = []
      \<and> snd (task_count_next tc) = tc
      \<and> calls n tc = replicate n Exhausted
      \<and> map return_value (calls n tc) = replicate n (- 1))
   \<and> (fst (task_count_next tc) = ParseError e \<longrightarrow>
        return_value (fst (task_count_next tc)) = - 1
      \<and> diagnostics (fst (task_count_next tc)) = [e]
      \<and> count tc = 0
      \<and> deref (task_count_str tc) (cur_ptr tc) \<noteq> NUL
      \<and> task_count_str (snd (task_count_next tc)) = task_count_str tc
      \<and> cur_ptr (snd (task_count_next tc)) = cur_ptr tc
      \<and> ((e = Invalid_integer_value (cur_ptr tc) (task_count_str tc)
            \<and> snd (task_count_next tc) = tc)
         \<or> ((\<exists>k. e = Invalid_repeat_specification k (task_count_str tc)
                  \<or> e = Invalid_repeat_count k (task_count_str tc)
                  \<or> e = Unexpected_character k (task_count_str tc))
             \<and> snd (task_count_next tc) =
                 tc\<lparr>value_tc :=
                      word_of_int (fst (strtol (drop (cur_ptr tc) (task_count_str tc))))\<rparr>)
         \<or> ((\<exists>k. e = Unexpected_character k (task_count_str tc))
             \<and> (\<exists>c. 0 < c \<and> snd (task_count_next tc) =
                 tc\<lparr>value_tc :=
                      word_of_int (fst (strtol (drop (cur_ptr tc) (task_count_str tc)))),
                    count := word_of_int c\<rparr>))))
   \<and> (fst (task_count_next tc) = Value v \<longrightarrow>
        return_value (fst (task_count_next tc)) = v
      \<and> diagnostics (fst (task_count_next tc)) = []
      \<and> v = sint (value_tc (snd (task_count_next tc))))
   \<and> calls 7 (task_count_init ''4(x2)x'') =
        [ParseError (Unexpected_character 4 ''4(x2)x''), Value 4, Value 4,
         ParseError (Unexpected_character 4 ''4(x2)x''), Value 4, Value 4,
         ParseError (Unexpected_character 4 ''4(x2)x'')]
   \<and> map return_value (calls 7 (task_count_init ''4(x2)x'')) = [- 1, 4, 4, - 1, 4, 4, - 1]"
proof (intro conjI impI)
  show "fst (task_count_next tc) = Exhausted \<longleftrightarrow>
      count tc = 0 \<and> deref (task_count_str tc) (cur_ptr tc) = NUL"
    using next_result_cases [of tc e v] by blast
next
  assume ex: "fst (task_count_next tc) = Exhausted"
  then have st: "snd (task_count_next tc) = tc"
    using next_result_cases [of tc e v] by blast
  with ex have nx: "task_count_next tc = (Exhausted, tc)"
    by (metis prod.collapse)
  show "return_value (fst (task_count_next tc)) = - 1"
    and "diagnostics (fst (task_count_next tc)) = []"
    by (simp_all add: ex return_value_def diagnostics_def)
  show "snd (task_count_next tc) = tc"
    by (rule st)
  show c: "calls n tc = replicate n Exhausted"
    using nx by (rule calls_exhausted)
  show "map return_value (calls n tc) = replicate n (- 1)"
    by (simp add: c return_value_def)
next
  assume pe: "fst (task_count_next tc) = ParseError e"
  then have nx: "task_count_next tc = (ParseError e, snd (task_count_next tc))"
    by (metis prod.collapse)
  note st = next_ParseError_state [OF nx]
  show "return_value (fst (task_count_next tc)) = - 1"
    and "diagnostics (fst (task_count_next tc)) = [e]"
    by (simp_all add: pe return_value_def diagnostics_def)
  from st show "count tc = 0" and "deref (task_count_str tc) (cur_ptr tc) \<noteq> NUL"
    by blast+
  from st show "task_count_str (snd (task_count_next tc)) = task_count_str tc"
    by (elim conjE disjE exE) simp_all
  from st show "cur_ptr (snd (task_count_next tc)) = cur_ptr tc"
    by (elim conjE disjE exE) simp_all
  from st show "(e = Invalid_integer_value (cur_ptr tc) (task_count_str tc)
            \<and> snd (task_count_next tc) = tc)
         \<or> ((\<exists>k. e = Invalid_repeat_specification k (task_count_str tc)
                  \<or> e = Invalid_repeat_count k (task_count_str tc)
                  \<or> e = Unexpected_character k (task_count_str tc))
             \<and> snd (task_count_next tc) =
                 tc\<lparr>value_tc :=
                      word_of_int (fst (strtol (drop (cur_ptr tc) (task_count_str tc))))\<rparr>)
         \<or> ((\<exists>k. e = Unexpected_character k (task_count_str tc))
             \<and> (\<exists>c. 0 < c \<and> snd (task_count_next tc) =
                 tc\<lparr>value_tc :=
                      word_of_int (fst (strtol (drop (cur_ptr tc) (task_count_str tc)))),
                    count := word_of_int c\<rparr>))"
    by blast
next
  assume va: "fst (task_count_next tc) = Value v"
  show "return_value (fst (task_count_next tc)) = v"
    and "diagnostics (fst (task_count_next tc)) = []"
    by (simp_all add: va return_value_def diagnostics_def)
  from va show "v = sint (value_tc (snd (task_count_next tc)))"
    using next_result_cases [of tc e v] by blast
next
  show "calls 7 (task_count_init ''4(x2)x'') =
        [ParseError (Unexpected_character 4 ''4(x2)x''), Value 4, Value 4,
         ParseError (Unexpected_character 4 ''4(x2)x''), Value 4, Value 4,
         ParseError (Unexpected_character 4 ''4(x2)x'')]"
    by code_simp
  show "map return_value (calls 7 (task_count_init ''4(x2)x'')) = [- 1, 4, 4, - 1, 4, 4, - 1]"
    by code_simp
qed

text \<open>
  Against C8 as stated: on \<open>4,\<close> the second call ends by exhaustion, on \<open>4,x\<close> it ends
  by a parse error, and the caller receives the same numbers, 4 and then -1, in both runs.
\<close>

theorem exhaustion_vs_error_counterexample:
  "calls 2 (task_count_init ''4,'') = [Value 4, Exhausted]
   \<and> calls 2 (task_count_init ''4,x'') = [Value 4, ParseError (Invalid_integer_value 2 ''4,x'')]
   \<and> map return_value (calls 2 (task_count_init ''4,''))
       = map return_value (calls 2 (task_count_init ''4,x''))"
  by code_simp

theorem next_return_value_witness:
  "fst (task_count_next (task_count_init '''')) = Exhausted
   \<and> return_value (fst (task_count_next (task_count_init ''''))) = - 1
   \<and> map return_value (calls 3 (task_count_init '''')) = [- 1, - 1, - 1]
   \<and> fst (task_count_next (task_count_init ''4(x2)x''))
        = ParseError (Unexpected_character 4 ''4(x2)x'')
   \<and> return_value (fst (task_count_next (task_count_init ''4(x2)x''))) = - 1
   \<and> diagnostics (fst (task_count_next (task_count_init ''4(x2)x'')))
        = [Unexpected_character 4 ''4(x2)x'']
   \<and> cur_ptr (snd (task_count_next (task_count_init ''4(x2)x''))) = 0
   \<and> snd (task_count_next (task_count_init ''4(x2)x'')) \<noteq> task_count_init ''4(x2)x''
   \<and> fst (task_count_next (task_count_init ''4(y2)''))
        = ParseError (Invalid_repeat_specification 2 ''4(y2)'')
   \<and> return_value (fst (task_count_next (task_count_init ''4(y2)''))) = - 1
   \<and> fst (task_count_next (task_count_init ''abc'')) = ParseError (Invalid_integer_value 0 ''abc'')
   \<and> snd (task_count_next (task_count_init ''abc'')) = task_count_init ''abc''
   \<and> fst (task_count_next (task_count_init ''-1'')) = Value (- 1)
   \<and> return_value (fst (task_count_next (task_count_init ''-1''))) = - 1"
proof -
  have a: "fst (task_count_next (task_count_init '''')) = Exhausted"
    by code_simp
  have b: "fst (task_count_next (task_count_init ''4(x2)x''))
        = ParseError (Unexpected_character 4 ''4(x2)x'')"
    by code_simp
  have b': "snd (task_count_next (task_count_init ''4(x2)x'')) \<noteq> task_count_init ''4(x2)x''"
    by code_simp
  have c: "fst (task_count_next (task_count_init ''4(y2)''))
        = ParseError (Invalid_repeat_specification 2 ''4(y2)'')"
    by code_simp
  have d: "fst (task_count_next (task_count_init ''abc'')) = ParseError (Invalid_integer_value 0 ''abc'')"
    by code_simp
  have f: "fst (task_count_next (task_count_init ''-1'')) = Value (- 1)"
    by code_simp
  have g: "cur_ptr (task_count_init s) = 0" "task_count_str (task_count_init s) = s" for s
    by (simp_all add: task_count_init_def)
  have h: "replicate 3 x = [x, x, x]" for x :: int
    by (simp add: numeral_3_eq_3)
  from next_return_value [of "task_count_init ''''" 3] a h
  have w1: "return_value (fst (task_count_next (task_count_init ''''))) = - 1"
    "map return_value (calls 3 (task_count_init '''')) = [- 1, - 1, - 1]"
    by simp_all
  from next_return_value [of "task_count_init ''4(x2)x''" _ "Unexpected_character 4 ''4(x2)x''"] b g
  have w2: "return_value (fst (task_count_next (task_count_init ''4(x2)x''))) = - 1"
    "diagnostics (fst (task_count_next (task_count_init ''4(x2)x''))) = [Unexpected_character 4 ''4(x2)x'']"
    "cur_ptr (snd (task_count_next (task_count_init ''4(x2)x''))) = 0"
    by simp_all
  from next_return_value [of "task_count_init ''4(y2)''" _ "Invalid_repeat_specification 2 ''4(y2)''"] c
  have w3: "return_value (fst (task_count_next (task_count_init ''4(y2)''))) = - 1"
    by simp
  from next_return_value [of "task_count_init ''abc''" _ "Invalid_integer_value 0 ''abc''"] d
  have w4: "snd (task_count_next (task_count_init ''abc'')) = task_count_init ''abc''"
    by auto
  from next_return_value [of "task_count_init ''-1''" _ _ "- 1"] f
  have w5: "return_value (fst (task_count_next (task_count_init ''-1''))) = - 1"
    by blast
  from a b b' c d f w1 w2 w3 w4 w5 show ?thesis
    by simp
qed

text \<open>
  C7, as the code has it. With no active entry the decoder lets \<open>strtol\<close> read an integer
  at the cursor: optional white space, an optional sign, decimal digits. At the end of the
  string the call reports exhaustion. Otherwise, when no digit follows the optional white
  space and sign, the call fails with the invalid-integer message, whose offset is the
  cursor offset, and leaves the decoder as it was; when a digit follows, the call neither
  reports exhaustion nor fails with that message.
\<close>

theorem leading_integer:
  "count tc = 0 \<longrightarrow>
     (deref (task_count_str tc) (cur_ptr tc) = NUL \<longrightarrow>
        task_count_next tc = (Exhausted, tc))
   \<and> (deref (task_count_str tc) (cur_ptr tc) \<noteq> NUL
        \<and> \<not> number_at (drop (cur_ptr tc) (task_count_str tc)) \<longrightarrow>
        task_count_next tc =
          (ParseError (Invalid_integer_value (cur_ptr tc) (task_count_str tc)), tc))
   \<and> (deref (task_count_str tc) (cur_ptr tc) \<noteq> NUL
        \<and> number_at (drop (cur_ptr tc) (task_count_str tc)) \<longrightarrow>
        fst (task_count_next tc) \<noteq> Exhausted
      \<and> (\<forall>k s. fst (task_count_next tc) \<noteq> ParseError (Invalid_integer_value k s)))"
  using next_at_end [of tc] next_no_number [of tc] next_number [of tc]
  by blast

text \<open>
  Against C7 as stated: the strings \<open>-3\<close> and \<open> 3\<close> do not begin with a digit, and the
  first call decodes them to -3 and to 3.
\<close>

theorem leading_sign_counterexample:
  "\<not> isdigit (deref ''-3'' (cur_ptr (task_count_init ''-3'')))
   \<and> deref ''-3'' (cur_ptr (task_count_init ''-3'')) \<noteq> NUL
   \<and> task_count_next (task_count_init ''-3'') =
       (Value (- 3), \<lparr>task_count_str = ''-3'', cur_ptr = 2, value_tc = - 3, count = 0\<rparr>)
   \<and> \<not> isdigit (deref '' 3'' (cur_ptr (task_count_init '' 3'')))
   \<and> fst (task_count_next (task_count_init '' 3'')) = Value 3"
  by code_simp

theorem leading_integer_witness:
  "count (tc_after 1 (task_count_init ''4,'')) = 0
   \<and> task_count_next (tc_after 1 (task_count_init ''4,''))
       = (Exhausted, tc_after 1 (task_count_init ''4,''))
   \<and> \<not> number_at (drop 2 ''4,+x'')
   \<and> fst (task_count_next (tc_after 1 (task_count_init ''4,+x'')))
       = ParseError (Invalid_integer_value 2 ''4,+x'')
   \<and> number_at (drop 0 '' -3'')
   \<and> fst (task_count_next (task_count_init '' -3'')) \<noteq> Exhausted
   \<and> fst (task_count_next (task_count_init '' -3''))
       \<noteq> ParseError (Invalid_integer_value 0 '' -3'')"
proof -
  have a: "tc_after 1 (task_count_init ''4,'')
      = \<lparr>task_count_str = ''4,'', cur_ptr = 2, value_tc = 4, count = 0\<rparr>"
    by code_simp
  have b: "tc_after 1 (task_count_init ''4,+x'')
      = \<lparr>task_count_str = ''4,+x'', cur_ptr = 2, value_tc = 4, count = 0\<rparr>"
    by code_simp
  have c: "deref ''4,'' 2 = NUL" "deref ''4,+x'' 2 \<noteq> NUL" "deref '' -3'' 0 \<noteq> NUL"
    by code_simp+
  have d: "\<not> number_at (drop 2 ''4,+x'')" "number_at (drop 0 '' -3'')"
    by code_simp+
  from leading_integer [of "tc_after 1 (task_count_init ''4,'')"]
    leading_integer [of "tc_after 1 (task_count_init ''4,+x'')"]
    leading_integer [of "task_count_init '' -3''"] a b c d
  show ?thesis by (simp add: task_count_init_def)
qed

section \<open>A delimiter that is not closed\<close>

lemma put_put: "put a (put b x) = put (a @ b) x"
  by (simp add: put_def)

lemma put_Nil: "put [] x = x"
  by (simp add: put_def)

lemma fst_put: "fst (put a x) = a @ fst x"
  by (simp add: put_def)

lemma snd_put: "snd (put a x) = snd x"
  by (simp add: put_def)

lemma fmt_single_tokens:
  assumes "tokens pre"
  shows "snd (fmt_single pre h n) = None \<and>
         fmt_single (pre @ rest) h n = put (fst (fmt_single pre h n)) (fmt_single rest h n)"
  using assms
proof (induction pre rule: tokens.induct)
  case tokens_Nil
  show ?case by (simp add: put_Nil)
next
  case (tokens_char c r)
  then show ?case by (simp add: put_put fst_put snd_put)
next
  case (tokens_percent d r)
  then show ?case by (simp add: put_put fst_put snd_put put_Nil)
next
  case (tokens_delim dl r e)
  then show ?case
    by (simp add: takeWhile_delim dropWhile_delim put_put fst_put snd_put)
qed

lemma fmt_single_unterminated:
  assumes "CHR '']'' \<notin> set d"
  shows "fmt_single (''%['' @ d) h n = ([], Some d)"
proof -
  from assms have "dropWhile (\<lambda>x. x \<noteq> CHR '']'') d = []"
    by auto
  then show ?thesis by (simp del: dropWhile_eq_Nil_conv)
qed

lemma fmt_single_malformed:
  assumes "tokens pre" and "CHR '']'' \<notin> set d"
  shows "fmt_single (pre @ ''%['' @ d) h n = (fst (fmt_single pre h n), Some d)"
  using fmt_single_tokens [OF assms(1), of h n "''%['' @ d"] fmt_single_unterminated [OF assms(2), of h n]
  by (simp add: put_def)

lemma next_no_delimiter_message:
  "Invalid_delimiter d \<notin> set (diagnostics (fst (task_count_next tc)))"
  by (auto simp: task_count_next_def diagnostics_def Let_def count_down_def
      split: prod.splits if_splits)

lemma repeat_mode_returns:
  "status (machinefile_loop False hosts tc fmt False) = Returned \<and>
   Invalid_delimiter d \<notin> set (stderr (machinefile_loop False hosts tc fmt False))"
proof (induction hosts arbitrary: tc)
  case Nil
  show ?case by simp
next
  case (Cons x hosts)
  obtain r tc' where nx: "task_count_next tc = (r, tc')"
    by (cases "task_count_next tc")
  have "Invalid_delimiter d \<notin> set (diagnostics r)"
    using next_no_delimiter_message [of d tc] nx by simp
  with Cons [of tc'] show ?case
    by (simp add: nx Let_def render_host_def prepend_def)
qed

text \<open>
  C3, as the code has it. The classification computes a truth value and reports
  nothing. A \<open>%[\<close> without closing \<open>]\<close> that the scan reaches as a token is found by
  single-pass rendering (the format has a count token, or \<open>no_repeats\<close> is set), at the
  first host, when its task count is positive: the text rendered before the token is
  written, the message is written, and the process exits with \<open>EINVAL\<close>, whatever hosts
  remain. In repeat mode the run returns normally without this message, and so does
  every run whose first task count is not positive or whose host list is empty.
\<close>

theorem malformed_delimiter:
  "tokens pre \<and> CHR '']'' \<notin> set d \<longrightarrow>
     (0 < return_value (fst (task_count_next tc)) \<and> (has_count (pre @ ''%['' @ d) \<or> nr) \<longrightarrow>
        print_machinefile (h # hs) tc (pre @ ''%['' @ d) nr =
          \<lparr>stdout = fst (fmt_single pre h (return_value (fst (task_count_next tc)))),
           stderr = [Invalid_delimiter d], status = Exit_EINVAL\<rparr>)
   \<and> (\<not> has_count (pre @ ''%['' @ d) \<and> \<not> nr \<longrightarrow>
        status (print_machinefile hosts tc (pre @ ''%['' @ d) nr) = Returned
      \<and> Invalid_delimiter d \<notin> set (stderr (print_machinefile hosts tc (pre @ ''%['' @ d) nr)))
   \<and> (return_value (fst (task_count_next tc)) \<le> 0 \<longrightarrow>
        status (print_machinefile (h # hs) tc (pre @ ''%['' @ d) nr) = Returned
      \<and> Invalid_delimiter d \<notin> set (stderr (print_machinefile (h # hs) tc (pre @ ''%['' @ d) nr)))
   \<and> print_machinefile [] tc (pre @ ''%['' @ d) nr =
        \<lparr>stdout = [], stderr = [], status = Returned\<rparr>"
proof (intro impI conjI; (elim conjE)?)
  assume pre: "tokens pre" and d: "CHR '']'' \<notin> set d"
    and pos: "0 < return_value (fst (task_count_next tc))"
    and mode: "has_count (pre @ ''%['' @ d) \<or> nr"
  obtain r tc' where nx: "task_count_next tc = (r, tc')"
    by (cases "task_count_next tc")
  from fmt_single_malformed [OF pre d, of h "return_value r"] mode
  have "render_host (has_count (pre @ ''%['' @ d)) nr (pre @ ''%['' @ d) h (return_value r)
      = (fst (fmt_single pre h (return_value r)), Some d)"
    by (simp add: render_host_def)
  with pos nx show "print_machinefile (h # hs) tc (pre @ ''%['' @ d) nr =
          \<lparr>stdout = fst (fmt_single pre h (return_value (fst (task_count_next tc)))),
           stderr = [Invalid_delimiter d], status = Exit_EINVAL\<rparr>"
    by (simp add: print_machinefile_def Let_def)
next
  assume "\<not> has_count (pre @ ''%['' @ d)" and "\<not> nr"
  with repeat_mode_returns [of hosts tc "pre @ ''%['' @ d" d]
  show "status (print_machinefile hosts tc (pre @ ''%['' @ d) nr) = Returned"
    and "Invalid_delimiter d \<notin> set (stderr (print_machinefile hosts tc (pre @ ''%['' @ d) nr))"
    by (simp_all add: print_machinefile_def)
next
  assume le: "return_value (fst (task_count_next tc)) \<le> 0"
  obtain r tc' where nx: "task_count_next tc = (r, tc')"
    by (cases "task_count_next tc")
  from next_no_delimiter_message [of d tc] nx
  have "Invalid_delimiter d \<notin> set (diagnostics r)"
    by simp
  with le nx
  show "status (print_machinefile (h # hs) tc (pre @ ''%['' @ d) nr) = Returned"
    and "Invalid_delimiter d \<notin> set (stderr (print_machinefile (h # hs) tc (pre @ ''%['' @ d) nr))"
    by (simp_all add: print_machinefile_def Let_def)
next
  show "print_machinefile [] tc (pre @ ''%['' @ d) nr =
        \<lparr>stdout = [], stderr = [], status = Returned\<rparr>"
    by (simp add: print_machinefile_def)
qed

text \<open>
  Against C3 as stated: with the format \<open>%h%[\<close>, two hosts and two tasks on each, the
  run with \<open>no_repeats\<close> writes \<open>n001\<close> before it exits, and the run without \<open>no_repeats\<close>
  writes its four lines and returns without any message.
\<close>

theorem malformed_delimiter_counterexample:
  "print_machinefile [''n001'', ''n002''] (task_count_init ''2,2'') ''%h%['' True =
     \<lparr>stdout = ''n001'', stderr = [Invalid_delimiter ''''], status = Exit_EINVAL\<rparr>
   \<and> print_machinefile [''n001'', ''n002''] (task_count_init ''2,2'') ''%h%['' False =
     \<lparr>stdout = ''n001'' @ [LF] @ ''n001'' @ [LF] @ ''n002'' @ [LF] @ ''n002'' @ [LF],
      stderr = [], status = Returned\<rparr>"
  by code_simp

theorem malformed_delimiter_witness:
  "tokens ''%h%[,]x:'' \<and> CHR '']'' \<notin> set ''ab''
   \<and> 0 < return_value (fst (task_count_next (task_count_init ''3,1'')))
   \<and> \<not> has_count (''%h%[,]x:'' @ ''%['' @ ''ab'')
   \<and> print_machinefile (''n1'' # [''n2'']) (task_count_init ''3,1'') (''%h%[,]x:'' @ ''%['' @ ''ab'') True
      = \<lparr>stdout = ''n1:'', stderr = [Invalid_delimiter ''ab''], status = Exit_EINVAL\<rparr>
   \<and> status (print_machinefile [''n1'', ''n2''] (task_count_init ''3,1'') (''%h%[,]x:'' @ ''%['' @ ''ab'') False)
      = Returned
   \<and> return_value (fst (task_count_next (task_count_init ''0''))) \<le> 0
   \<and> status (print_machinefile (''n1'' # [''n2'']) (task_count_init ''0'') (''%h%[,]x:'' @ ''%['' @ ''ab'') True)
      = Returned"
proof -
  have "tokens (CHR ''%'' # CHR ''h'' # ''%['' @ '','' @ CHR '']'' # CHR ''x'' # CHR '':'' # [])"
    by (intro tokens.intros) simp_all
  then have a: "tokens ''%h%[,]x:''"
    by simp
  have b: "CHR '']'' \<notin> set ''ab''"
    by simp
  have c: "return_value (fst (task_count_next (task_count_init ''3,1''))) = 3"
    "return_value (fst (task_count_next (task_count_init ''0''))) = 0"
    by code_simp+
  have d: "\<not> has_count (''%h%[,]x:'' @ ''%['' @ ''ab'')"
    by code_simp
  have e: "fmt_single ''%h%[,]x:'' ''n1'' 3 = (''n1:'', None)"
    by code_simp
  from malformed_delimiter [of "''%h%[,]x:''" "''ab''" "task_count_init ''3,1''" True "''n1''" "[''n2'']"]
    malformed_delimiter [of "''%h%[,]x:''" "''ab''" "task_count_init ''3,1''" False _ _ "[''n1'', ''n2'']"]
    malformed_delimiter [of "''%h%[,]x:''" "''ab''" "task_count_init ''0''" True "''n1''" "[''n2'']"]
    a b c d e
  show ?thesis by simp
qed

section \<open>The classification and the escaped percent sign\<close>

lemma strstr_finds: "strstr (pre @ needle @ post) needle \<noteq> None"
proof (induction pre)
  case Nil
  have t: "take (length needle) (needle @ post) = needle"
    by simp
  show ?case
  proof (cases "needle @ post")
    case Nil
    then show ?thesis by simp
  next
    case (Cons a list)
    with t have "take (length needle) (a # list) = needle"
      by simp
    with Cons show ?thesis by simp
  qed
next
  case (Cons x pre)
  then show ?case by simp
qed

lemma has_count_escaped_c: "has_count (pre @ ''%%c'' @ post)"
proof -
  have "strstr ((pre @ ''%'') @ ''%c'' @ post) ''%c'' \<noteq> None"
    by (rule strstr_finds)
  then show "has_count (pre @ ''%%c'' @ post)"
    by (simp add: has_count_def)
qed

lemma has_count_escaped_C: "has_count (pre @ ''%%C'' @ post)"
proof -
  have "strstr ((pre @ ''%'') @ ''%C'' @ post) ''%C'' \<noteq> None"
    by (rule strstr_finds)
  then show ?thesis
    by (simp add: has_count_def)
qed

text \<open>
  C2, at the escaped percent sign. The classification searches the format for the two
  characters \<open>%c\<close> (or \<open>%C\<close>) wherever they stand, so every format that contains \<open>%%c\<close> is
  classified as having a count token, although single-pass rendering writes \<open>%%c\<close> as the
  text \<open>%c\<close>. With the format \<open>%h%%c\<close> and three tasks the host gets one line; with the
  format \<open>%h%%\<close>, which is classified as having no count token, it gets three.
\<close>

theorem escaped_percent_classified:
  "has_count (pre @ ''%%c'' @ post)
   \<and> has_count (pre @ ''%%C'' @ post)
   \<and> fmt_single ''%%c'' h n = (''%c'', None)
   \<and> print_machinefile [''n001''] (task_count_init ''3'') ''%h%%c'' False =
       \<lparr>stdout = ''n001%c'' @ [LF], stderr = [], status = Returned\<rparr>
   \<and> \<not> has_count ''%h%%''
   \<and> print_machinefile [''n001''] (task_count_init ''3'') ''%h%%'' False =
       \<lparr>stdout = ''n001%'' @ [LF] @ ''n001%'' @ [LF] @ ''n001%'' @ [LF],
        stderr = [], status = Returned\<rparr>"
proof (intro conjI)
  show "has_count (pre @ ''%%c'' @ post)"
    by (rule has_count_escaped_c)
  show "has_count (pre @ ''%%C'' @ post)"
    by (rule has_count_escaped_C)
  show "fmt_single ''%%c'' h n = (''%c'', None)"
    by (simp add: put_def)
  show "print_machinefile [''n001''] (task_count_init ''3'') ''%h%%c'' False =
       \<lparr>stdout = ''n001%c'' @ [LF], stderr = [], status = Returned\<rparr>"
    by code_simp
  show "\<not> has_count ''%h%%''"
    by code_simp
  show "print_machinefile [''n001''] (task_count_init ''3'') ''%h%%'' False =
       \<lparr>stdout = ''n001%'' @ [LF] @ ''n001%'' @ [LF] @ ''n001%'' @ [LF],
        stderr = [], status = Returned\<rparr>"
    by code_simp
qed

theorem escaped_percent_classified_witness:
  "has_count (''%h '' @ ''%%c'' @ '' x'') \<and> fmt_single ''%%c'' ''n001'' 3 = (''%c'', None)"
  using escaped_percent_classified [of "''%h ''" "'' x''" "''n001''" 3]
  by simp

section \<open>The strings that decode without a parse error\<close>

lemma isdigit_not_space: "isdigit c \<Longrightarrow> \<not> isspace c"
  by (auto simp: isdigit_def isspace_def)

lemma isdigit_not_sign: "isdigit c \<Longrightarrow> c \<noteq> CHR ''-'' \<and> c \<noteq> CHR ''+''"
  by (auto simp: isdigit_def)

lemma sign_not_space: "\<not> isspace (CHR ''-'')" "\<not> isspace (CHR ''+'')"
  by (simp_all add: isspace_def)

lemma numchar_not_punct:
  "numchar c \<Longrightarrow> c \<noteq> CHR '','' \<and> c \<noteq> CHR ''('' \<and> c \<noteq> CHR '')'' \<and> c \<noteq> CHR ''x'' \<and> c \<noteq> NUL"
  by (auto simp: numchar_def isdigit_def isspace_def NUL_def)

lemma punct_not_digit:
  "\<not> isdigit (CHR '','')" "\<not> isdigit (CHR ''('')" "\<not> isdigit (CHR '')'')"
  by (simp_all add: isdigit_def)

subsection \<open>What \<open>strtol\<close> reads\<close>

lemma strtol_INT_parts:
  assumes "strtol_INT i"
  obtains ws sg ds where "i = ws @ sg @ ds" and "\<forall>c\<in>set ws. isspace c"
    and "sg = [] \<or> sg = ''-'' \<or> sg = ''+''" and "ds \<noteq> []" and "\<forall>c\<in>set ds. isdigit c"
proof -
  define r where "r = dropWhile isspace i"
  define sg where "sg = (if r \<noteq> [] \<and> (hd r = CHR ''-'' \<or> hd r = CHR ''+'') then [hd r] else [])"
  define ds where "ds = (if r \<noteq> [] \<and> (hd r = CHR ''-'' \<or> hd r = CHR ''+'') then tl r else r)"
  have "r = sg @ ds"
    by (cases r) (auto simp: sg_def ds_def)
  moreover have "i = takeWhile isspace i @ r"
    by (simp add: r_def)
  ultimately have "i = takeWhile isspace i @ sg @ ds"
    by simp
  moreover have "\<forall>c\<in>set (takeWhile isspace i). isspace c"
    by (auto dest: set_takeWhileD)
  moreover have "sg = [] \<or> sg = ''-'' \<or> sg = ''+''"
    by (auto simp: sg_def)
  moreover from assms have "ds \<noteq> [] \<and> list_all isdigit ds"
    unfolding strtol_INT_def Let_def ds_def r_def .
  then have "ds \<noteq> []" and "\<forall>c\<in>set ds. isdigit c"
    by (simp_all add: list_all_iff)
  ultimately show ?thesis
    using that by blast
qed

lemma strtol_parts:
  assumes ws: "\<forall>c\<in>set ws. isspace c"
    and sg: "sg = [] \<or> sg = ''-'' \<or> sg = ''+''"
    and ds: "ds \<noteq> []" "\<forall>c\<in>set ds. isdigit c"
    and u: "u = [] \<or> \<not> isdigit (hd u)"
  shows "strtol (ws @ sg @ ds @ u) =
    (clamp_long (if sg = ''-'' then - int (digits_val ds) else int (digits_val ds)),
     length ws + length sg + length ds)"
proof -
  obtain d ds' where dsc: "ds = d # ds'"
    using ds(1) by (cases ds) auto
  with ds(2) have d: "isdigit d"
    by simp
  have nsp: "sg @ ds @ u \<noteq> []" "\<not> isspace (hd (sg @ ds @ u))"
    using sg d dsc isdigit_not_space sign_not_space by auto
  have tw: "takeWhile isspace (ws @ sg @ ds @ u) = ws"
    using ws nsp by (cases "sg @ ds @ u") auto
  have dw: "dropWhile isspace (ws @ sg @ ds @ u) = sg @ ds @ u"
    using ws nsp by (cases "sg @ ds @ u") auto
  have td: "takeWhile isdigit (ds @ u) = ds"
    using ds(2) u by (cases u) auto
  from sg show ?thesis
  proof (elim disjE)
    assume "sg = []"
    with d dsc isdigit_not_sign [of d] tw dw td show ?thesis
      by (simp add: strtol_def Let_def)
  next
    assume "sg = ''-''"
    with tw dw td ds(1) show ?thesis
      by (simp add: strtol_def Let_def)
  next
    assume "sg = ''+''"
    with tw dw td ds(1) show ?thesis
      by (simp add: strtol_def Let_def)
  qed
qed

lemma strtol_INT_append:
  assumes "strtol_INT i" and "u = [] \<or> \<not> isdigit (hd u)"
  shows "strtol (i @ u) = (fst (strtol i), length i)"
proof -
  from assms(1) obtain ws sg ds where i: "i = ws @ sg @ ds" and ws: "\<forall>c\<in>set ws. isspace c"
    and sg: "sg = [] \<or> sg = ''-'' \<or> sg = ''+''" and ds: "ds \<noteq> []" "\<forall>c\<in>set ds. isdigit c"
    by (rule strtol_INT_parts)
  from strtol_parts [OF ws sg ds assms(2)] strtol_parts [OF ws sg ds, of "[]"] i
  show ?thesis by simp
qed

lemma strtol_INT_numchar:
  assumes "strtol_INT i"
  shows "\<forall>c\<in>set i. numchar c"
proof -
  from assms obtain ws sg ds where i: "i = ws @ sg @ ds" and ws: "\<forall>c\<in>set ws. isspace c"
    and sg: "sg = [] \<or> sg = ''-'' \<or> sg = ''+''" and ds: "ds \<noteq> []" "\<forall>c\<in>set ds. isdigit c"
    by (rule strtol_INT_parts)
  then show ?thesis
    by (auto simp: numchar_def)
qed

lemma strtol_INT_intro:
  assumes ws: "\<forall>c\<in>set ws. isspace c"
    and sg: "sg = [] \<or> sg = ''-'' \<or> sg = ''+''"
    and ds: "ds \<noteq> []" "\<forall>c\<in>set ds. isdigit c"
  shows "strtol_INT (ws @ sg @ ds)"
proof -
  obtain d ds' where dsc: "ds = d # ds'"
    using ds(1) by (cases ds) auto
  with ds(2) have d: "isdigit d"
    by simp
  have nsp: "sg @ ds \<noteq> []" "\<not> isspace (hd (sg @ ds))"
    using sg d dsc isdigit_not_space sign_not_space by auto
  have dw: "dropWhile isspace (ws @ sg @ ds) = sg @ ds"
    using ws nsp by (cases "sg @ ds") auto
  from sg show ?thesis
  proof (elim disjE)
    assume "sg = []"
    with d dsc isdigit_not_sign [of d] dw ds show ?thesis
      by (simp add: strtol_INT_def Let_def list_all_iff)
  next
    assume "sg = ''-''"
    with dw ds show ?thesis
      by (simp add: strtol_INT_def Let_def list_all_iff)
  next
    assume "sg = ''+''"
    with dw ds show ?thesis
      by (simp add: strtol_INT_def Let_def list_all_iff)
  qed
qed

lemma strtol_consumed:
  assumes "strtol r = (c, n)" and "0 < n"
  shows "strtol_INT (take n r) \<and> n \<le> length r
       \<and> (drop n r = [] \<or> \<not> isdigit (hd (drop n r)))
       \<and> strtol (take n r) = (c, n)"
proof -
  define ws where "ws = takeWhile isspace r"
  define r1 where "r1 = dropWhile isspace r"
  define sl :: nat where "sl = (if r1 \<noteq> [] \<and> (hd r1 = CHR ''-'' \<or> hd r1 = CHR ''+'') then 1 else 0)"
  define sg where "sg = take sl r1"
  define ds where "ds = takeWhile isdigit (drop sl r1)"
  define u where "u = dropWhile isdigit (drop sl r1)"
  from assms have dsne: "ds \<noteq> []"
    by (auto simp: strtol_def Let_def ws_def r1_def sl_def ds_def split: if_splits)
  with assms have n: "n = length ws + sl + length ds"
    by (auto simp: strtol_def Let_def ws_def r1_def sl_def ds_def split: if_splits)
  have r: "r = ws @ sg @ ds @ u"
    by (simp add: ws_def r1_def sg_def ds_def u_def)
  have lsg: "length sg = sl"
    by (cases r1) (auto simp: sg_def sl_def)
  have ws: "\<forall>c\<in>set ws. isspace c"
    by (auto simp: ws_def dest: set_takeWhileD)
  have sg: "sg = [] \<or> sg = ''-'' \<or> sg = ''+''"
    by (cases r1) (auto simp: sg_def sl_def)
  have ds: "\<forall>c\<in>set ds. isdigit c"
    by (auto simp: ds_def dest: set_takeWhileD)
  have u: "u = [] \<or> \<not> isdigit (hd u)"
    using hd_dropWhile [of isdigit "drop sl r1"] by (auto simp: u_def)
  have tk: "take n r = ws @ sg @ ds" and dr: "drop n r = u"
    using r n lsg by simp_all
  have len: "n \<le> length r"
    using r n lsg by simp
  from strtol_parts [OF ws sg dsne ds u] r assms(1)
  have c: "c = clamp_long (if sg = ''-'' then - int (digits_val ds) else int (digits_val ds))"
    by simp
  from strtol_parts [OF ws sg dsne ds, of "[]"] c n lsg tk
  have "strtol (take n r) = (c, n)"
    by simp
  with strtol_INT_intro [OF ws sg dsne ds] tk dr u len show ?thesis
    by simp
qed

subsection \<open>One entry\<close>

lemma first_char_simps:
  "first_char [] = NUL" "first_char (c # cs) = c"
  by (simp_all add: first_char_def)

lemma NUL_not_punct: "NUL \<noteq> CHR '',''" "NUL \<noteq> CHR ''(''" "NUL \<noteq> CHR '')''" "NUL \<noteq> CHR ''x''"
  by (simp_all add: NUL_def)

lemma strtol_INT_nonempty: "strtol_INT i \<Longrightarrow> i \<noteq> []"
  by (auto simp: strtol_INT_def)

lemma entry_end_plain:
  assumes "strtol_INT i" and "tail = [] \<or> hd tail = CHR '',''"
  shows "entry_end (i @ tail) = Some (length i + (if tail = [] then 0 else 1))"
proof -
  from assms(2) have "tail = [] \<or> \<not> isdigit (hd tail)"
    using punct_not_digit by auto
  from strtol_INT_append [OF assms(1) this]
  obtain c where st: "strtol (i @ tail) = (c, length i)"
    by blast
  from assms(1) have ne: "i \<noteq> []"
    by (rule strtol_INT_nonempty)
  show ?thesis
  proof (cases tail)
    case Nil
    with st ne show ?thesis
      by (simp add: entry_end_def first_char_simps NUL_not_punct)
  next
    case (Cons a rest)
    with assms(2) have "a = CHR '',''"
      by simp
    with Cons st ne show ?thesis
      by (simp add: entry_end_def first_char_simps)
  qed
qed

lemma entry_end_repeat:
  assumes "strtol_INT i" and "strtol_REP p" and "tail = [] \<or> hd tail = CHR '',''"
  shows "entry_end (i @ ''(x'' @ p @ '')'' @ tail) =
    Some (length i + 2 + length p + 1 + (if tail = [] then 0 else 1))"
proof -
  from assms(2) have p: "strtol_INT p" and pos: "0 < fst (strtol p)"
    by (simp_all add: strtol_REP_def)
  have "\<not> isdigit (hd (''(x'' @ p @ '')'' @ tail))"
    using punct_not_digit by simp
  with strtol_INT_append [OF assms(1), of "''(x'' @ p @ '')'' @ tail"]
  obtain c where st: "strtol (i @ ''(x'' @ p @ '')'' @ tail) = (c, length i)"
    by blast
  have "\<not> isdigit (hd ('')'' @ tail))"
    using punct_not_digit by simp
  with strtol_INT_append [OF p, of "'')'' @ tail"] pos
  obtain c2 where st2: "strtol (p @ '')'' @ tail) = (c2, length p)" and pos2: "0 < c2"
    by blast
  from assms(1) p have ne: "i \<noteq> []" "p \<noteq> []"
    by (simp_all add: strtol_INT_nonempty)
  show ?thesis
  proof (cases tail)
    case Nil
    with st st2 ne pos2 show ?thesis
      by (simp add: entry_end_def first_char_simps NUL_not_punct)
  next
    case (Cons a rest)
    with assms(3) have "a = CHR '',''"
      by simp
    with Cons st st2 ne pos2 show ?thesis
      by (simp add: entry_end_def first_char_simps NUL_not_punct [symmetric])
  qed
qed

lemma accepted_entry_shape:
  assumes "accepted_entry e"
  obtains i where "strtol_INT i" and "e = i"
  | i p where "strtol_INT i" and "strtol_REP p" and "e = i @ ''(x'' @ p @ '')''"
proof -
  define i where "i = takeWhile (\<lambda>c. c \<noteq> CHR ''('') e"
  define t where "t = dropWhile (\<lambda>c. c \<noteq> CHR ''('') e"
  have e: "e = i @ t"
    by (simp add: i_def t_def)
  from assms have i: "strtol_INT i"
    and t: "t = [] \<or> (take 2 t = ''(x'' \<and> 3 \<le> length t \<and> last t = CHR '')'' \<and>
           strtol_REP (butlast (drop 2 t)))"
    by (simp_all add: accepted_entry_def Let_def i_def t_def)
  from t show ?thesis
  proof
    assume "t = []"
    with e i that(1) show ?thesis by simp
  next
    assume a: "take 2 t = ''(x'' \<and> 3 \<le> length t \<and> last t = CHR '')'' \<and>
           strtol_REP (butlast (drop 2 t))"
    then have ne: "drop 2 t \<noteq> []"
      by simp
    then have "last (drop 2 t) = last t"
      by (simp add: last_drop)
    with a ne have "drop 2 t = butlast (drop 2 t) @ '')''"
      using append_butlast_last_id [OF ne] by simp
    moreover have "t = take 2 t @ drop 2 t"
      by simp
    ultimately have "t = ''(x'' @ butlast (drop 2 t) @ '')''"
      using a by metis
    with e i a that(2) show ?thesis by blast
  qed
qed

lemma entry_end_accepted:
  assumes "accepted_entry e" and "tail = [] \<or> hd tail = CHR '',''"
  shows "entry_end (e @ tail) = Some (length e + (if tail = [] then 0 else 1))"
  using assms(1)
proof (cases rule: accepted_entry_shape)
  case (1 i)
  with entry_end_plain [OF 1(1) assms(2)] show ?thesis by simp
next
  case (2 i p)
  with entry_end_repeat [OF 2(1,2) assms(2)] show ?thesis by simp
qed

lemma first_char_Cons:
  assumes "first_char xs = c" and "c \<noteq> NUL"
  obtains ys where "xs = c # ys"
  using assms by (cases xs) (auto simp: first_char_simps)

lemma entry_end_shape:
  assumes "entry_end r = Some k" and "NUL \<notin> set r"
  obtains (plain) i tail where "strtol_INT i" and "r = i @ tail"
      and "tail = [] \<or> hd tail = CHR '',''"
  | (repeat) i p tail where "strtol_INT i" and "strtol_REP p"
      and "r = i @ ''(x'' @ p @ '')'' @ tail" and "tail = [] \<or> hd tail = CHR '',''"
proof -
  obtain c n where st: "strtol r = (c, n)"
    by (cases "strtol r")
  with assms(1) have n: "0 < n"
    by (auto simp: entry_end_def split: if_splits)
  from strtol_consumed [OF st n] have i: "strtol_INT (take n r)"
    by simp
  define u where "u = drop n r"
  have r: "r = take n r @ u"
    by (simp add: u_def)
  with assms(2) have nu: "NUL \<notin> set u"
    by (metis Un_iff set_append)
  show thesis
  proof (cases "first_char u = CHR ''(''")
    case False
    with assms(1) st n have "first_char u = CHR '','' \<or> first_char u = NUL"
      by (auto simp: entry_end_def Let_def u_def split: if_splits)
    with nu have "u = [] \<or> hd u = CHR '',''"
      by (cases u) (auto simp: first_char_simps)
    with i r plain show thesis
      by blast
  next
    case True
    then obtain u1 where u1: "u = CHR ''('' # u1"
      using NUL_not_punct by (auto elim: first_char_Cons)
    from assms(1) st n True have x: "first_char (drop 1 u) = CHR ''x''"
      by (auto simp: entry_end_def Let_def u_def split: if_splits)
    with u1 obtain u2 where u2: "u1 = CHR ''x'' # u2"
      using NUL_not_punct by (auto elim: first_char_Cons)
    obtain c2 m where st2: "strtol u2 = (c2, m)"
      by (cases "strtol u2")
    from u1 u2 have d2: "drop 2 u = u2"
      by simp
    from assms(1) st n True x d2 st2
    have pos: "0 < c2" and m: "0 < m"
      and cl: "first_char (drop (2 + m) u) = CHR '')''"
      and sep: "first_char (drop 1 (drop (2 + m) u)) = CHR '',''
              \<or> first_char (drop 1 (drop (2 + m) u)) = NUL"
      by (auto simp: entry_end_def Let_def u_def [symmetric] split: if_splits)
    from strtol_consumed [OF st2 m] have p: "strtol_INT (take m u2)"
      and pv: "strtol (take m u2) = (c2, m)"
      by simp_all
    with pos have rep: "strtol_REP (take m u2)"
      by (simp add: strtol_REP_def)
    define v where "v = drop m u2"
    from u1 u2 have dv: "drop (2 + m) u = v"
      by (simp add: v_def)
    with cl obtain v1 where v1: "v = CHR '')'' # v1"
      using NUL_not_punct by (auto elim: first_char_Cons)
    have u2v: "u2 = take m u2 @ v"
      by (simp add: v_def)
    from nu u1 u2 u2v v1 have "NUL \<notin> set v1"
      by (metis Un_iff list.set_intros(2) set_append)
    moreover from sep have "first_char v1 = CHR '','' \<or> first_char v1 = NUL"
      unfolding dv v1 by simp
    ultimately have "v1 = [] \<or> hd v1 = CHR '',''"
      by (cases v1) (auto simp: first_char_simps)
    moreover from r u1 u2 u2v v1
    have "r = take n r @ ''(x'' @ take m u2 @ '')'' @ v1"
      by (metis append_Cons append_Nil)
    ultimately show thesis
      using i rep repeat by blast
  qed
qed

lemma strtol_INT_no_punct:
  assumes "strtol_INT i"
  shows "CHR '','' \<notin> set i" and "CHR ''('' \<notin> set i"
  using strtol_INT_numchar [OF assms] numchar_not_punct by blast+

lemma accepted_entry_plain:
  assumes "strtol_INT i"
  shows "accepted_entry i"
proof -
  from strtol_INT_no_punct(2) [OF assms]
  have "takeWhile (\<lambda>c. c \<noteq> CHR ''('') i = i" and "dropWhile (\<lambda>c. c \<noteq> CHR ''('') i = []"
    by auto
  with assms show ?thesis
    by (simp add: accepted_entry_def del: takeWhile_eq_all_conv dropWhile_eq_Nil_conv)
qed

lemma accepted_entry_repeat:
  assumes "strtol_INT i" and "strtol_REP p"
  shows "accepted_entry (i @ ''(x'' @ p @ '')'')"
proof -
  from strtol_INT_no_punct(2) [OF assms(1)]
  have "takeWhile (\<lambda>c. c \<noteq> CHR ''('') (i @ CHR ''('' # CHR ''x'' # p @ '')'') = i"
    and "dropWhile (\<lambda>c. c \<noteq> CHR ''('') (i @ CHR ''('' # CHR ''x'' # p @ '')'')
        = CHR ''('' # CHR ''x'' # p @ '')''"
    by (induction i) auto
  with assms show ?thesis
    by (simp add: accepted_entry_def butlast_append)
qed

lemma takeWhile_upto:
  "x \<notin> set a \<Longrightarrow> takeWhile (\<lambda>c. c \<noteq> x) (a @ x # rest) = a"
  by (induction a) auto

lemma split_unique:
  assumes "a @ b = c @ d" and "CHR '','' \<notin> set a" and "CHR '','' \<notin> set c"
    and "b = [] \<or> hd b = CHR '',''" and "d = [] \<or> hd d = CHR '',''"
  shows "a = c \<and> b = d"
proof -
  have "takeWhile (\<lambda>x. x \<noteq> CHR '','') (a @ b) = a"
    using assms(2,4) by (cases b) (auto simp: takeWhile_upto)
  moreover have "takeWhile (\<lambda>x. x \<noteq> CHR '','') (c @ d) = c"
    using assms(3,5) by (cases d) (auto simp: takeWhile_upto)
  ultimately have "a = c"
    using assms(1) by simp
  with assms(1) show ?thesis by simp
qed

lemma entry_end_only_accepted:
  assumes "entry_end (e @ tail) = Some k" and "NUL \<notin> set (e @ tail)"
    and "CHR '','' \<notin> set e" and "tail = [] \<or> hd tail = CHR '',''"
  shows "accepted_entry e"
  using assms(1,2)
proof (cases rule: entry_end_shape)
  case (plain i tail')
  from split_unique [OF plain(2) assms(3) strtol_INT_no_punct(1) [OF plain(1)] assms(4) plain(3)]
  have "e = i" by simp
  with accepted_entry_plain [OF plain(1)] show ?thesis by simp
next
  case (repeat i p tail')
  from repeat(2) have p: "strtol_INT p"
    by (simp add: strtol_REP_def)
  have nc: "CHR '','' \<notin> set (i @ ''(x'' @ p @ '')'')"
    using strtol_INT_no_punct(1) [OF repeat(1)] strtol_INT_no_punct(1) [OF p] by simp
  from repeat(3) have "e @ tail = (i @ ''(x'' @ p @ '')'') @ tail'"
    by simp
  from split_unique [OF this assms(3) nc assms(4) repeat(4)]
  have "e = i @ ''(x'' @ p @ '')''" by simp
  with accepted_entry_repeat [OF repeat(1,2)] show ?thesis by simp
qed

subsection \<open>The whole string\<close>

lemma decodes_Exhausted:
  "task_count_next tc = (Exhausted, tc') \<Longrightarrow> decodes tc"
  by (simp add: decodes_def decode.simps [of tc])

lemma decodes_ParseError:
  "task_count_next tc = (ParseError e, tc') \<Longrightarrow> \<not> decodes tc"
  by (simp add: decodes_def decode.simps [of tc])

lemma decodes_Value:
  "task_count_next tc = (Value v, tc') \<Longrightarrow> decodes tc \<longleftrightarrow> decodes tc'"
  by (simp add: decodes_def decode.simps [of tc] split: sum.splits)

lemma decodes_count:
  "decodes tc \<longleftrightarrow> decodes (tc\<lparr>count := 0\<rparr>)"
proof (induction "unat (count tc)" arbitrary: tc rule: less_induct)
  case less
  show ?case
  proof (cases "count tc = 0")
    case True
    then have "tc\<lparr>count := 0\<rparr> = tc"
      by simp
    then show ?thesis by simp
  next
    case False
    then have nx: "task_count_next tc = (Value (sint (value_tc tc)), tc\<lparr>count := count tc - 1\<rparr>)"
      by (simp add: task_count_next_def count_down_def)
    from False have "unat (count (tc\<lparr>count := count tc - 1\<rparr>)) < unat (count tc)"
      by (simp add: unat_minus_one unat_gt_0)
    from less [OF this] decodes_Value [OF nx] show ?thesis
      by simp
  qed
qed

lemma split_commas_nonempty: "split_commas s \<noteq> []"
  by (induction s) (auto split: list.splits)

lemma split_commas_no_comma: "CHR '','' \<notin> set e \<Longrightarrow> split_commas e = [e]"
  by (induction e) auto

lemma split_commas_comma:
  "CHR '','' \<notin> set e \<Longrightarrow> split_commas (e @ CHR '','' # rest) = e # split_commas rest"
  by (induction e) auto

lemma accepted_no_comma:
  "CHR '','' \<notin> set e \<Longrightarrow> accepted e \<longleftrightarrow> e = [] \<or> accepted_entry e"
  by (simp add: accepted_def split_commas_no_comma)

lemma accepted_comma:
  "CHR '','' \<notin> set e \<Longrightarrow>
   accepted (e @ CHR '','' # rest) \<longleftrightarrow> accepted_entry e \<and> accepted rest"
  using split_commas_nonempty [of rest]
  by (simp add: accepted_def split_commas_comma Let_def)

lemma accepted_split:
  assumes "e = takeWhile (\<lambda>c. c \<noteq> CHR '','') r" and "tail = dropWhile (\<lambda>c. c \<noteq> CHR '','') r"
    and "r \<noteq> []"
  shows "accepted r \<longleftrightarrow> accepted_entry e \<and> accepted (drop (length e + (if tail = [] then 0 else 1)) r)"
proof -
  have r: "r = e @ tail"
    by (simp add: assms)
  have nc: "CHR '','' \<notin> set e"
    by (auto simp: assms(1) dest: set_takeWhileD)
  show ?thesis
  proof (cases tail)
    case Nil
    with r assms(3) accepted_no_comma [OF nc] show ?thesis
      by (simp add: accepted_def)
  next
    case (Cons a rest)
    with hd_dropWhile [of "\<lambda>c. c \<noteq> CHR '',''" r] assms(2) have "a = CHR '',''"
      by (metis list.distinct(1) list.sel(1))
    with Cons r accepted_comma [OF nc, of rest] show ?thesis
      by simp
  qed
qed

lemma decodes_accepted:
  assumes "NUL \<notin> set (task_count_str tc)" and "count tc = 0"
  shows "decodes tc \<longleftrightarrow> accepted (drop (cur_ptr tc) (task_count_str tc))"
  using assms
proof (induction "length (task_count_str tc) - cur_ptr tc" arbitrary: tc rule: less_induct)
  case less
  let ?s = "task_count_str tc"
  let ?r = "drop (cur_ptr tc) ?s"
  show ?case
  proof (cases "?r = []")
    case True
    then have "deref ?s (cur_ptr tc) = NUL"
      by (simp add: deref_def)
    from next_at_end [OF less.prems(2) this] have "decodes tc"
      by (rule decodes_Exhausted)
    with True show ?thesis
      by (simp add: accepted_def)
  next
    case False
    then have lt: "cur_ptr tc < length ?s"
      by simp
    then have "?s ! cur_ptr tc \<in> set ?s"
      by (rule nth_mem)
    with less.prems(1) have "?s ! cur_ptr tc \<noteq> NUL"
      by metis
    with lt have nn: "deref ?s (cur_ptr tc) \<noteq> NUL"
      by (simp add: deref_def)
    define e where "e = takeWhile (\<lambda>c. c \<noteq> CHR '','') ?r"
    define tail where "tail = dropWhile (\<lambda>c. c \<noteq> CHR '','') ?r"
    define k where "k = length e + (if tail = [] then 0 else 1)"
    have r: "?r = e @ tail"
      by (simp add: e_def tail_def)
    have nc: "CHR '','' \<notin> set e"
      by (auto simp: e_def dest: set_takeWhileD)
    have tl: "tail = [] \<or> hd tail = CHR '',''"
      using hd_dropWhile [of "\<lambda>c. c \<noteq> CHR '',''" ?r] by (auto simp: tail_def)
    have nul: "NUL \<notin> set (e @ tail)"
      using less.prems(1) r by (metis in_set_dropD)
    from accepted_split [OF e_def tail_def False]
    have acc: "accepted ?r \<longleftrightarrow> accepted_entry e \<and> accepted (drop k ?r)"
      by (simp add: k_def)
    show ?thesis
    proof (cases "accepted_entry e")
      case True
      from entry_end_accepted [OF True tl] r have ee: "entry_end ?r = Some k"
        by (simp add: k_def)
      with next_entry_end [OF less.prems(2) nn]
      obtain v tc' where nx: "task_count_next tc = (Value v, tc')"
        and str: "task_count_str tc' = ?s" and cur: "cur_ptr tc' = cur_ptr tc + k"
        by auto
      from ee have kpos: "0 < k"
        by (rule entry_end_positive)
      let ?tc0 = "tc'\<lparr>count := 0\<rparr>"
      from lt kpos cur str
      have "length (task_count_str ?tc0) - cur_ptr ?tc0 < length ?s - cur_ptr tc"
        by simp
      moreover from less.prems(1) str have "NUL \<notin> set (task_count_str ?tc0)"
        by simp
      ultimately
      have "decodes ?tc0 \<longleftrightarrow> accepted (drop (cur_ptr ?tc0) (task_count_str ?tc0))"
        by (rule less.hyps) simp
      with str cur have "decodes ?tc0 \<longleftrightarrow> accepted (drop k ?r)"
        by (simp add: add.commute)
      with decodes_Value [OF nx] decodes_count [of tc'] acc True show ?thesis
        by simp
    next
      case False
      have "entry_end ?r = None"
      proof (cases "entry_end ?r")
        case (Some k')
        with r have "entry_end (e @ tail) = Some k'"
          by simp
        from entry_end_only_accepted [OF this nul nc tl] False show ?thesis
          by simp
      qed simp
      with next_entry_end [OF less.prems(2) nn]
      obtain err tc' where "task_count_next tc = (ParseError err, tc')"
        by auto
      then have "\<not> decodes tc"
        by (rule decodes_ParseError)
      with acc False show ?thesis
        by simp
    qed
  qed
qed

text \<open>
  C9, as the code has it. A task count string (a C string, so without NUL) is decoded to
  exhaustion without a parse error if and only if it is empty or a sequence of entries
  separated by commas, with or without one more comma after the last entry, where
  \<open>entry = INT | INT '(x' REP ')'\<close>, \<open>INT\<close> is an integer as \<open>strtol\<close> reads it and \<open>REP\<close> is such an
  integer with a positive value.
\<close>

theorem decodes_iff_accepted:
  "NUL \<notin> set s \<longrightarrow> ((\<exists>vs. decode (task_count_init s) = Inr vs) \<longleftrightarrow> accepted s)"
proof
  assume "NUL \<notin> set s"
  then have "NUL \<notin> set (task_count_str (task_count_init s))"
    and "count (task_count_init s) = 0"
    by (simp_all add: task_count_init_def)
  from decodes_accepted [OF this] show "(\<exists>vs. decode (task_count_init s) = Inr vs) \<longleftrightarrow> accepted s"
    by (simp add: decodes_def task_count_init_def)
qed

text \<open>
  Against C9 as stated: \<open>4,\<close> ends with a comma and does not match the grammar of the
  specification, and it is decoded to exhaustion, to the single value 4, without error.
\<close>

theorem trailing_comma_counterexample:
  "decode (task_count_init ''4,'') = Inr [4] \<and> \<not> spec_grammar ''4,''"
  by code_simp

theorem decodes_iff_accepted_witness:
  "NUL \<notin> set '' 4(x2),-1,'' \<and> accepted '' 4(x2),-1,''
   \<and> decode (task_count_init '' 4(x2),-1,'') = Inr [4, 4, - 1]
   \<and> NUL \<notin> set ''4(x0)'' \<and> \<not> accepted ''4(x0)''
   \<and> \<not> (\<exists>vs. decode (task_count_init ''4(x0)'') = Inr vs)"
proof -
  have a: "NUL \<notin> set '' 4(x2),-1,''" "NUL \<notin> set ''4(x0)''"
    by (simp_all add: NUL_def)
  have b: "accepted '' 4(x2),-1,''" "\<not> accepted ''4(x0)''"
    by code_simp+
  have c: "decode (task_count_init '' 4(x2),-1,'') = Inr [4, 4, - 1]"
    by code_simp
  from decodes_iff_accepted [of "'' 4(x2),-1,''"] decodes_iff_accepted [of "''4(x0)''"] a b c
  show ?thesis by simp
qed

end
